theory Spec2Isabelle
  imports Main "HOL-Library.AList"
begin

section \<open>A supervisor for tcpdump children: the model of tcpdump_service.py\<close>

text \<open>
  The script is modelled as a state-passing program over a record \<open>world\<close>. The world
  holds the module-level dictionary \<open>processes\<close> (an association list in insertion
  order, as a Python dict keeps it), the file objects that are open, the counters that
  name fresh file and process objects, a clock that only blocking calls advance, and
  the trace of every call made to the operating system, in order, with its result.

  What the operating system answers is not decided by the script. It is given by a
  record \<open>env\<close> of functions indexed by \<open>tick\<close>, the number of calls made so far, so
  that a theorem quantified over \<open>env\<close> holds for every behaviour of the children and
  of the file system. The signals that are delivered are part of the initial world:
  which signals, in which order, and before which call each.
\<close>

subsection \<open>Configuration (module level, lines 18 to 37)\<close>

text \<open>
  What \<open>settings.get\<close> or \<open>settings.getint\<close> finds under a key: nothing (the fallback
  is returned), a value whose reading raises (\<open>InterpolationError\<close> for a value with
  a stray \<open>%\<close>, and for \<open>getint\<close> also \<open>ValueError\<close> for a text that \<open>int()\<close>
  rejects), or the value. The string settings are kept as the parser returns them.
\<close>

datatype exn =
  OSError | TimeoutExpired | KeyError | ValueError | ParsingError | InterpolationError
  | KeyboardInterrupt

datatype 'a lookup = Absent | Fails exn | Found 'a

record raw_settings =
  raw_interfaces :: "string lookup"
  raw_output_dir :: "string lookup"
  raw_tcpdump_bin :: "string lookup"
  raw_rotate_size_mb :: "int lookup"
  raw_max_rotated_files :: "int lookup"
  raw_extra_args :: "string lookup"

text \<open>
  What \<open>config.read(CONFIG_FILE)\<close> followed by \<open>config["settings"]\<close> finds: no file
  that could be read (the list of files read is empty), a file that the parser
  rejects (\<open>ParsingError\<close> stands for the parser's errors), a file without the
  section, or the section.
\<close>

datatype conf_read = Unreadable | Malformed | NoSettingsSection | Settings raw_settings

record cfg =
  INTERFACES :: "string list"
  OUTPUT_DIR :: string
  TCPDUMP_BIN :: string
  ROTATE_SIZE_MB :: int
  MAX_ROTATED_FILES :: int
  EXTRA_ARGS :: "string list"

subsection \<open>Exceptions, outcomes, events\<close>

text \<open>\<open>except Exception\<close> catches every exception of the model but KeyboardInterrupt.\<close>

fun is_Exception :: "exn \<Rightarrow> bool" where
  "is_Exception KeyboardInterrupt = False"
| "is_Exception _ = True"

fun is_TimeoutExpired :: "exn \<Rightarrow> bool" where
  "is_TimeoutExpired TimeoutExpired = True"
| "is_TimeoutExpired _ = False"

fun is_KeyboardInterrupt :: "exn \<Rightarrow> bool" where
  "is_KeyboardInterrupt KeyboardInterrupt = True"
| "is_KeyboardInterrupt _ = False"

text \<open>
  A piece of the script returns a value, raises, calls \<open>sys.exit\<close>, is cut short by
  the delivery of a signal whose handler is \<open>handle_sig\<close> (the handler then runs on
  the world as it is at that point, see \<open>main\<close>), or is ended by a signal that has no
  handler and whose default action ends the process.
\<close>

datatype 'a outcome = Ret 'a | Raise exn | SysExit int | Signalled int | Killed int

datatype stream = DEVNULL | Inherit | ToFile nat

datatype msg =
    MsgConfigError
  | MsgNoBinary string
  | MsgMkdirFailed string exn
  | MsgStarted string nat string
  | MsgStopping string nat
  | MsgErrorStopping string exn
  | MsgReceived int
  | MsgExited string int
  | MsgRestarted string nat

datatype event =
    EPrint msg
  | EPrintErr msg
  | EExists string bool
  | EMkdir string bool
  | EOpen string string "nat option"
  | EPopen "string list" stream stream "nat option"
  | EPoll nat "int option"
  | ETerminate nat bool
  | EKill nat bool
  | EWait nat nat bool
  | EClose nat bool
  | ESleep nat

subsection \<open>The environment and the world\<close>

text \<open>
  The environment: what the configuration file holds, what \<open>str.strip()\<close> returns
  (which characters are whitespace is Unicode's matter), how \<open>pathlib\<close> makes and
  joins paths (\<open>mk_path s\<close> is \<open>str(Path(s))\<close>, \<open>joinpath d s\<close> is
  \<open>str(Path(d) / s)\<close>), and, for the call made when \<open>tick\<close> is \<open>t\<close>: whether a path
  exists, whether \<open>mkdir\<close>, \<open>open\<close>, \<open>Popen\<close>, \<open>terminate\<close>, \<open>kill\<close> and \<open>close\<close>
  raise, what \<open>poll\<close> returns (\<open>None\<close> while the child runs, its exit code
  afterwards), and after how long a child waited for exits (\<open>None\<close> for never).
\<close>

record env =
  conf :: conf_read
  str_strip :: "string \<Rightarrow> string"
  mk_path :: "string \<Rightarrow> string"
  joinpath :: "string \<Rightarrow> string \<Rightarrow> string"
  exists_at :: "nat \<Rightarrow> string \<Rightarrow> bool"
  mkdir_fails :: "nat \<Rightarrow> string \<Rightarrow> bool"
  open_fails :: "nat \<Rightarrow> string \<Rightarrow> bool"
  popen_fails :: "nat \<Rightarrow> string list \<Rightarrow> bool"
  poll_at :: "nat \<Rightarrow> nat \<Rightarrow> int option"
  terminate_fails :: "nat \<Rightarrow> nat \<Rightarrow> bool"
  kill_fails :: "nat \<Rightarrow> nat \<Rightarrow> bool"
  exits_within :: "nat \<Rightarrow> nat \<Rightarrow> nat option"
  close_fails :: "nat \<Rightarrow> nat \<Rightarrow> bool"

text \<open>
  The world: the dictionary \<open>processes\<close>, from the interface name to the pair of the
  \<open>Popen\<close> handle and the sink (handles and file objects are numbered as they are
  created); the file objects that are open; the next fresh handle and file object;
  the time spent in blocking calls; the number of calls made; the trace; the signal
  that arrives next, if any, with the value of \<open>tick\<close> from which it is delivered
  (before the call of that number, or before the first later point of delivery); the
  signals that arrive after it, in order (they are read only when the next signal is
  taken); the signals for which \<open>signal.signal\<close> has installed \<open>handle_sig\<close>.
\<close>

record world =
  processes :: "(string \<times> nat \<times> nat) list"
  open_files :: "nat list"
  next_pid :: nat
  next_fd :: nat
  clock :: nat
  tick :: nat
  trace :: "event list"
  signal_at :: "(nat \<times> int) option"
  later_signals :: "(nat \<times> int) list"
  handlers :: "int list"

type_synonym 'a prog = "world \<Rightarrow> 'a outcome \<times> world"

definition ret :: "'a \<Rightarrow> 'a prog" where
  "ret x w = (Ret x, w)"

definition bnd :: "'a prog \<Rightarrow> ('a \<Rightarrow> 'b prog) \<Rightarrow> 'b prog" where
  "bnd m f w =
     (case m w of
        (Ret x, w') \<Rightarrow> f x w'
      | (Raise e, w') \<Rightarrow> (Raise e, w')
      | (SysExit n, w') \<Rightarrow> (SysExit n, w')
      | (Signalled s, w') \<Rightarrow> (Signalled s, w')
      | (Killed s, w') \<Rightarrow> (Killed s, w'))"

text \<open>\<open>try: m except <class>: h\<close>, the class given as a predicate on exceptions.\<close>

definition try_except :: "(exn \<Rightarrow> bool) \<Rightarrow> 'a prog \<Rightarrow> (exn \<Rightarrow> 'a prog) \<Rightarrow> 'a prog" where
  "try_except cls m h w =
     (case m w of
        (Raise e, w') \<Rightarrow> (if cls e then h e w' else (Raise e, w'))
      | r \<Rightarrow> r)"

text \<open>
  \<open>try: m finally: c\<close>: \<open>c\<close> runs whatever \<open>m\<close> did; the outcome of \<open>m\<close> stands unless
  \<open>c\<close> itself does not return.
\<close>

definition try_finally :: "unit prog \<Rightarrow> unit prog \<Rightarrow> unit prog" where
  "try_finally m c w =
     (case m w of (r, w') \<Rightarrow>
        (case c w' of (Ret _, w'') \<Rightarrow> (r, w'') | (r', w'') \<Rightarrow> (r', w'')))"

subsection \<open>Calls to the operating system\<close>

text \<open>
  Every call appends its event to the trace and advances \<open>tick\<close>. Only \<open>time.sleep\<close>
  and \<open>Popen.wait\<close> advance the clock. The calls that can raise in the model are
  \<open>mkdir\<close>, \<open>open\<close>, \<open>close\<close>, \<open>Popen\<close>, \<open>terminate\<close>, \<open>kill\<close> (OSError) and
  \<open>wait\<close> (TimeoutExpired); \<open>print\<close>, \<open>Path.exists\<close>, \<open>poll\<close> and \<open>time.sleep\<close> are
  taken to return always.
\<close>

definition emit :: "event \<Rightarrow> world \<Rightarrow> world" where
  "emit e w = w\<lparr>trace := trace w @ [e], tick := Suc (tick w)\<rparr>"

definition py_print :: "msg \<Rightarrow> unit prog" where
  "py_print m w = (Ret (), emit (EPrint m) w)"

definition py_print_err :: "msg \<Rightarrow> unit prog" where
  "py_print_err m w = (Ret (), emit (EPrintErr m) w)"

definition sys_exit :: "int \<Rightarrow> 'a prog" where
  "sys_exit n w = (SysExit n, w)"

definition path_exists :: "env \<Rightarrow> string \<Rightarrow> bool prog" where
  "path_exists E p w = (Ret (exists_at E (tick w) p), emit (EExists p (exists_at E (tick w) p)) w)"

definition mkdir :: "env \<Rightarrow> string \<Rightarrow> unit prog" where
  "mkdir E p w =
     (if mkdir_fails E (tick w) p then (Raise OSError, emit (EMkdir p False) w)
      else (Ret (), emit (EMkdir p True) w))"

text \<open>\<open>open(path, mode)\<close>: a fresh file object, open, or OSError.\<close>

definition py_open :: "env \<Rightarrow> string \<Rightarrow> string \<Rightarrow> nat prog" where
  "py_open E p mode w =
     (if open_fails E (tick w) p then (Raise OSError, emit (EOpen p mode None) w)
      else (Ret (next_fd w),
            emit (EOpen p mode (Some (next_fd w)))
              (w\<lparr>open_files := open_files w @ [next_fd w], next_fd := Suc (next_fd w)\<rparr>)))"

text \<open>
  \<open>f.close()\<close>: the file object is closed also when the call raises (a buffered
  writer closes its raw file after a failed flush).
\<close>

definition py_close :: "env \<Rightarrow> nat \<Rightarrow> unit prog" where
  "py_close E f w =
     (if close_fails E (tick w) f
      then (Raise OSError, emit (EClose f False) (w\<lparr>open_files := removeAll f (open_files w)\<rparr>))
      else (Ret (), emit (EClose f True) (w\<lparr>open_files := removeAll f (open_files w)\<rparr>)))"

text \<open>\<open>subprocess.Popen(cmd, stdout=out, stderr=err)\<close>: a fresh handle, or OSError.\<close>

definition popen :: "env \<Rightarrow> string list \<Rightarrow> stream \<Rightarrow> stream \<Rightarrow> nat prog" where
  "popen E cmd out err w =
     (if popen_fails E (tick w) cmd then (Raise OSError, emit (EPopen cmd out err None) w)
      else (Ret (next_pid w),
            emit (EPopen cmd out err (Some (next_pid w))) (w\<lparr>next_pid := Suc (next_pid w)\<rparr>)))"

definition poll :: "env \<Rightarrow> nat \<Rightarrow> int option prog" where
  "poll E p w = (Ret (poll_at E (tick w) p), emit (EPoll p (poll_at E (tick w) p)) w)"

definition terminate :: "env \<Rightarrow> nat \<Rightarrow> unit prog" where
  "terminate E p w =
     (if terminate_fails E (tick w) p then (Raise OSError, emit (ETerminate p False) w)
      else (Ret (), emit (ETerminate p True) w))"

definition kill :: "env \<Rightarrow> nat \<Rightarrow> unit prog" where
  "kill E p w =
     (if kill_fails E (tick w) p then (Raise OSError, emit (EKill p False) w)
      else (Ret (), emit (EKill p True) w))"

text \<open>
  \<open>p.wait(timeout=t)\<close>: the child exits \<open>d\<close> time units after the call
  (\<open>exits_within = Some d\<close>) or never; the call returns after \<open>d\<close> when \<open>d \<le> t\<close> and
  raises TimeoutExpired after \<open>t\<close> otherwise.
\<close>

definition wait :: "env \<Rightarrow> nat \<Rightarrow> nat \<Rightarrow> unit prog" where
  "wait E p t w =
     (case exits_within E (tick w) p of
        Some d \<Rightarrow>
          (if d \<le> t then (Ret (), emit (EWait p t True) (w\<lparr>clock := clock w + d\<rparr>))
           else (Raise TimeoutExpired, emit (EWait p t False) (w\<lparr>clock := clock w + t\<rparr>)))
      | None \<Rightarrow> (Raise TimeoutExpired, emit (EWait p t False) (w\<lparr>clock := clock w + t\<rparr>)))"

definition sleep :: "nat \<Rightarrow> unit prog" where
  "sleep n w = (Ret (), emit (ESleep n) (w\<lparr>clock := clock w + n\<rparr>))"

text \<open>
  A file object that nothing refers to any longer is closed by the interpreter
  (CPython counts references). The registry is the only lasting reference to a sink:
  the locals \<open>f_err\<close> and \<open>p\<close> are rebound before each assignment to
  \<open>processes[iface]\<close>, and \<open>Popen\<close> keeps no reference to the file object. So a sink
  that no entry of the registry holds any more is no longer open: \<open>release f r files\<close>
  are the open files once a reference to \<open>f\<close> is dropped and the registry is \<open>r\<close>. This
  is no call of \<open>close()\<close> by the script and leaves no event.
\<close>

definition release :: "nat \<Rightarrow> (string \<times> nat \<times> nat) list \<Rightarrow> nat list \<Rightarrow> nat list" where
  "release f r files = (if f \<in> set (map (snd \<circ> snd) r) then files else removeAll f files)"

text \<open>
  \<open>processes[iface] = (p, f_err)\<close>: a new key is added at the end, the value of a key
  that is there is replaced in place, and the sink of the replaced value is released
  (it is closed unless the registry still holds it). In the restart of line 124 the
  replaced sink was closed at line 118.
\<close>

definition set_entry :: "string \<Rightarrow> nat \<times> nat \<Rightarrow> unit prog" where
  "set_entry iface v w =
     (Ret (),
      w\<lparr>processes := AList.update iface v (processes w),
        open_files :=
          (case map_of (processes w) iface of
             None \<Rightarrow> open_files w
           | Some old \<Rightarrow> release (snd old) (AList.update iface v (processes w)) (open_files w)),
        tick := Suc (tick w)\<rparr>)"

text \<open>
  \<open>processes.clear()\<close>, the last statement of \<open>stop_all\<close>: \<open>close()\<close> has been called
  on every sink of the registry by then.
\<close>

definition clear_processes :: "unit prog" where
  "clear_processes w = (Ret (), w\<lparr>processes := [], tick := Suc (tick w)\<rparr>)"

subsection \<open>Signals\<close>

definition SIGINT :: int where
  "SIGINT = 2"

definition SIGTERM :: int where
  "SIGTERM = 15"

text \<open>
  The signals not yet delivered, in the order of their arrival, each with the value
  of \<open>tick\<close> from which it is delivered. One entry stands for one run of a handler
  (or of the default action): the interpreter notes a signal when it arrives and acts
  on it before the next call.
\<close>

definition pending :: "world \<Rightarrow> (nat \<times> int) list" where
  "pending w = (case signal_at w of None \<Rightarrow> [] | Some x \<Rightarrow> x # later_signals w)"

text \<open>The signal to deliver now, if there is one; and the world once it is taken.\<close>

definition due :: "world \<Rightarrow> int option" where
  "due w = (case signal_at w of None \<Rightarrow> None | Some (t, s) \<Rightarrow> if t \<le> tick w then Some s else None)"

definition consume :: "world \<Rightarrow> world" where
  "consume w =
     w\<lparr>signal_at := (case later_signals w of [] \<Rightarrow> None | x # xs \<Rightarrow> Some x),
       later_signals := tl (later_signals w)\<rparr>"

text \<open>
  A signal without a handler of the script: SIGINT raises KeyboardInterrupt at the
  point of delivery (Python's own handler), any other signal of the model ends the
  process as SIGTERM does.
\<close>

definition default_action :: "int \<Rightarrow> 'a outcome" where
  "default_action s = (if s = SIGINT then Raise KeyboardInterrupt else Killed s)"

text \<open>
  \<open>intr m\<close> is a call of the main program, with the point of delivery before it. When
  a signal is due there and \<open>handle_sig\<close> is installed for it, the call is not made
  and the outcome is \<open>Signalled\<close>: \<open>main\<close> runs the handler on the world of that point
  (no statement of the main program runs between the two, as no \<open>except\<close> clause of
  the script catches SystemExit and the main program has no \<open>finally\<close>).
\<close>

definition intr :: "'a prog \<Rightarrow> 'a prog" where
  "intr m w =
     (case due w of
        None \<Rightarrow> m w
      | Some s \<Rightarrow>
          (if s \<in> set (handlers w) then (Signalled s, consume w)
           else (default_action s, consume w)))"

text \<open>
  \<open>nested H m\<close> is a call made while \<open>handle_sig\<close> runs: a signal due before it runs
  the handler \<open>H\<close> in place, inside the running one, and what \<open>H\<close> raises is raised at
  that point (\<open>stop_all\<close> has a \<open>finally\<close> that runs then).
\<close>

definition nested :: "(int \<Rightarrow> unit prog) \<Rightarrow> 'a prog \<Rightarrow> 'a prog" where
  "nested H m w =
     (case due w of
        None \<Rightarrow> m w
      | Some s \<Rightarrow>
          (if s \<in> set (handlers w) then bnd (H s) (\<lambda>_. m) (consume w)
           else (default_action s, consume w)))"

text \<open>\<open>signal.signal(s, handle_sig)\<close>\<close>

definition signal_signal :: "int \<Rightarrow> unit prog" where
  "signal_signal s w = (Ret (), w\<lparr>handlers := s # handlers w, tick := Suc (tick w)\<rparr>)"

subsection \<open>Reading the configuration\<close>

text \<open>\<open>s.split(",")\<close>: the pieces between the separators; one piece for the empty string.\<close>

fun split_on :: "char \<Rightarrow> string \<Rightarrow> string list" where
  "split_on c [] = [[]]"
| "split_on c (x # xs) =
     (if x = c then [] # split_on c xs
      else (case split_on c xs of y # ys \<Rightarrow> (x # y) # ys | [] \<Rightarrow> [[x]]))"

text \<open>\<open>[i.strip() for i in s.split(",") if i.strip()]\<close>\<close>

definition parse_list :: "env \<Rightarrow> string \<Rightarrow> string list" where
  "parse_list E s =
     map (str_strip E) (filter (\<lambda>i. str_strip E i \<noteq> []) (split_on (CHR '','') s))"

text \<open>\<open>settings.get(key, fallback)\<close> and \<open>settings.getint(key, fallback)\<close>.\<close>

definition get_setting :: "string lookup \<Rightarrow> string \<Rightarrow> string prog" where
  "get_setting v fallback w =
     (case v of Absent \<Rightarrow> (Ret fallback, w) | Fails e \<Rightarrow> (Raise e, w) | Found s \<Rightarrow> (Ret s, w))"

definition getint :: "int lookup \<Rightarrow> int \<Rightarrow> int prog" where
  "getint v fallback w =
     (case v of Absent \<Rightarrow> (Ret fallback, w) | Fails e \<Rightarrow> (Raise e, w) | Found n \<Rightarrow> (Ret n, w))"

text \<open>
  Lines 21 to 37, the settings read in the order of the source. The directory is
  created at module level, outside any \<open>try\<close>: an error there is an uncaught
  exception. No handler is installed yet.
\<close>

definition module_init :: "env \<Rightarrow> cfg prog" where
  "module_init E w =
     (case conf E of
        Unreadable \<Rightarrow> bnd (intr (py_print_err MsgConfigError)) (\<lambda>_. sys_exit 1) w
      | Malformed \<Rightarrow> (Raise ParsingError, w)
      | NoSettingsSection \<Rightarrow> (Raise KeyError, w)
      | Settings s \<Rightarrow>
          bnd (get_setting (raw_interfaces s) []) (\<lambda>interfaces.
          bnd (get_setting (raw_output_dir s) ''/var/log/tcpdump'') (\<lambda>output_dir.
          bnd (get_setting (raw_tcpdump_bin s) ''/usr/bin/tcpdump'') (\<lambda>tcpdump_bin.
          bnd (getint (raw_rotate_size_mb s) 100) (\<lambda>rot.
          bnd (getint (raw_max_rotated_files s) 20) (\<lambda>mx.
          bnd (get_setting (raw_extra_args s) []) (\<lambda>extra_args.
          bnd (intr (mkdir E (mk_path E output_dir))) (\<lambda>_.
          ret \<lparr>INTERFACES = parse_list E interfaces,
               OUTPUT_DIR = mk_path E output_dir,
               TCPDUMP_BIN = tcpdump_bin,
               ROTATE_SIZE_MB = rot,
               MAX_ROTATED_FILES = mx,
               EXTRA_ARGS = parse_list E extra_args\<rparr>))))))) w)"

subsection \<open>build_cmd (lines 42 to 54)\<close>

definition digit_char :: "nat \<Rightarrow> char" where
  "digit_char d = char_of (48 + d)"

function str_nat :: "nat \<Rightarrow> string" where
  "str_nat n = (if n < 10 then [digit_char n] else str_nat (n div 10) @ [digit_char (n mod 10)])"
  by pat_completeness auto
termination
  by (relation "measure id") auto

text \<open>\<open>str(n)\<close> for a Python int.\<close>

definition str_int :: "int \<Rightarrow> string" where
  "str_int i = (if i < 0 then CHR ''-'' # str_nat (nat (- i)) else str_nat (nat i))"

definition build_cmd :: "env \<Rightarrow> cfg \<Rightarrow> string \<Rightarrow> string \<Rightarrow> string list" where
  "build_cmd E C interface out_base =
     [TCPDUMP_BIN C,
      ''-i'', interface,
      ''-s'', ''0'',
      ''-w'', joinpath E out_base (interface @ ''.pcap''),
      ''-C'', str_int (ROTATE_SIZE_MB C),
      ''-W'', str_int (MAX_ROTATED_FILES C)]
     @ EXTRA_ARGS C"

subsection \<open>start_all (lines 57 to 64)\<close>

definition start_unit :: "env \<Rightarrow> cfg \<Rightarrow> string \<Rightarrow> unit prog" where
  "start_unit E C iface =
     bnd (intr (py_open E (joinpath E (OUTPUT_DIR C) (iface @ ''.stderr.log'')) ''ab'')) (\<lambda>f_err.
     bnd (intr (popen E (build_cmd E C iface (OUTPUT_DIR C)) DEVNULL (ToFile f_err))) (\<lambda>p.
     bnd (intr (set_entry iface (p, f_err))) (\<lambda>_.
     intr (py_print (MsgStarted iface p (OUTPUT_DIR C))))))"

fun start_units :: "env \<Rightarrow> cfg \<Rightarrow> string list \<Rightarrow> unit prog" where
  "start_units E C [] = ret ()"
| "start_units E C (iface # rest) = bnd (start_unit E C iface) (\<lambda>_. start_units E C rest)"

definition start_all :: "env \<Rightarrow> cfg \<Rightarrow> unit prog" where
  "start_all E C = start_units E C (INTERFACES C)"

subsection \<open>stop_all (lines 67 to 84)\<close>

text \<open>\<open>stop_all\<close> as it runs when no signal is delivered meanwhile.\<close>

definition stop_unit :: "env \<Rightarrow> string \<times> nat \<times> nat \<Rightarrow> unit prog" where
  "stop_unit E u =
     (case u of (iface, p, f_err) \<Rightarrow>
        try_finally
          (try_except is_Exception
             (bnd (py_print (MsgStopping iface p)) (\<lambda>_.
              bnd (terminate E p) (\<lambda>_.
              try_except is_TimeoutExpired (wait E p 5)
                (\<lambda>_. bnd (kill E p) (\<lambda>_. wait E p 5)))))
             (\<lambda>e. py_print (MsgErrorStopping iface e)))
          (try_except is_Exception (py_close E f_err) (\<lambda>_. ret ())))"

fun stop_units :: "env \<Rightarrow> (string \<times> nat \<times> nat) list \<Rightarrow> unit prog" where
  "stop_units E [] = ret ()"
| "stop_units E (u # us) = bnd (stop_unit E u) (\<lambda>_. stop_units E us)"

definition stop_all :: "env \<Rightarrow> unit prog" where
  "stop_all E w = bnd (stop_units E (processes w)) (\<lambda>_. clear_processes) w"

text \<open>
  \<open>stop_all\<close> with its points of delivery: \<open>D\<close> is put around every call, and says
  what a signal due before the call does (\<open>stop_all\<close> runs inside \<open>handle_sig\<close>, and
  Python delivers signals there as anywhere else). With \<open>D\<close> the identity this is
  \<open>stop_all\<close> above (lemma \<open>stop_all_under_id\<close>).
\<close>

definition stop_unit_under ::
  "(unit prog \<Rightarrow> unit prog) \<Rightarrow> env \<Rightarrow> string \<times> nat \<times> nat \<Rightarrow> unit prog"
where
  "stop_unit_under D E u =
     (case u of (iface, p, f_err) \<Rightarrow>
        try_finally
          (try_except is_Exception
             (bnd (D (py_print (MsgStopping iface p))) (\<lambda>_.
              bnd (D (terminate E p)) (\<lambda>_.
              try_except is_TimeoutExpired (D (wait E p 5))
                (\<lambda>_. bnd (D (kill E p)) (\<lambda>_. D (wait E p 5))))))
             (\<lambda>e. D (py_print (MsgErrorStopping iface e))))
          (try_except is_Exception (D (py_close E f_err)) (\<lambda>_. ret ())))"

fun stop_units_under ::
  "(unit prog \<Rightarrow> unit prog) \<Rightarrow> env \<Rightarrow> (string \<times> nat \<times> nat) list \<Rightarrow> unit prog"
where
  "stop_units_under D E [] = ret ()"
| "stop_units_under D E (u # us) = bnd (stop_unit_under D E u) (\<lambda>_. stop_units_under D E us)"

definition stop_all_under :: "(unit prog \<Rightarrow> unit prog) \<Rightarrow> env \<Rightarrow> unit prog" where
  "stop_all_under D E w =
     bnd (stop_units_under D E (processes w)) (\<lambda>_. D clear_processes) w"

subsection \<open>handle_sig (lines 87 to 90)\<close>

definition handle_sig_under :: "(unit prog \<Rightarrow> unit prog) \<Rightarrow> env \<Rightarrow> int \<Rightarrow> unit prog" where
  "handle_sig_under D E signum =
     bnd (D (py_print (MsgReceived signum))) (\<lambda>_.
     bnd (stop_all_under D E) (\<lambda>_.
     sys_exit 0))"

text \<open>
  A signal that is due while \<open>handle_sig\<close> runs starts \<open>handle_sig\<close> again, nested in
  the running one, and so on. The number \<open>d\<close> bounds the depth of the nesting: at
  depth 0 nothing is delivered. Every nested run takes one signal away and none is
  added, so the number of pending signals is depth enough
  (lemma \<open>handle_sig_at_depth\<close>: a greater depth changes nothing).
\<close>

primrec handle_sig_at :: "nat \<Rightarrow> env \<Rightarrow> int \<Rightarrow> unit prog" where
  "handle_sig_at 0 E signum = handle_sig_under (\<lambda>m. m) E signum"
| "handle_sig_at (Suc d) E signum = handle_sig_under (nested (handle_sig_at d E)) E signum"

definition handle_sig :: "env \<Rightarrow> int \<Rightarrow> unit prog" where
  "handle_sig E signum w = handle_sig_at (length (pending w)) E signum w"

subsection \<open>main (lines 93 to 128)\<close>

text \<open>Lines 115 to 125: the restart of a unit whose child was found exited.\<close>

definition restart_unit :: "env \<Rightarrow> cfg \<Rightarrow> string \<Rightarrow> nat \<Rightarrow> int \<Rightarrow> unit prog" where
  "restart_unit E C iface f_err r =
     bnd (intr (py_print (MsgExited iface r))) (\<lambda>_.
     bnd (try_except is_Exception (intr (py_close E f_err)) (\<lambda>_. ret ())) (\<lambda>_.
     bnd (intr (sleep 2)) (\<lambda>_.
     bnd (intr (py_open E (joinpath E (OUTPUT_DIR C) (iface @ ''.stderr.log'')) ''ab'')) (\<lambda>f_new.
     bnd (intr (popen E (build_cmd E C iface (OUTPUT_DIR C)) DEVNULL (ToFile f_new))) (\<lambda>newp.
     bnd (intr (set_entry iface (newp, f_new))) (\<lambda>_.
     intr (py_print (MsgRestarted iface newp))))))))"

definition monitor_unit :: "env \<Rightarrow> cfg \<Rightarrow> string \<times> nat \<times> nat \<Rightarrow> unit prog" where
  "monitor_unit E C u =
     (case u of (iface, p, f_err) \<Rightarrow>
        bnd (intr (poll E p)) (\<lambda>r.
          (case r of None \<Rightarrow> ret () | Some code \<Rightarrow> restart_unit E C iface f_err code)))"

fun monitor_units :: "env \<Rightarrow> cfg \<Rightarrow> (string \<times> nat \<times> nat) list \<Rightarrow> unit prog" where
  "monitor_units E C [] = ret ()"
| "monitor_units E C (u # us) = bnd (monitor_unit E C u) (\<lambda>_. monitor_units E C us)"

text \<open>One pass of the \<open>for\<close> loop of line 112, over the snapshot \<open>list(processes.items())\<close>.\<close>

definition monitor_pass :: "env \<Rightarrow> cfg \<Rightarrow> unit prog" where
  "monitor_pass E C w = monitor_units E C (processes w) w"

text \<open>One iteration of \<open>while True\<close>: the pass, then \<open>time.sleep(1)\<close>.\<close>

definition loop_iteration :: "env \<Rightarrow> cfg \<Rightarrow> unit prog" where
  "loop_iteration E C = bnd (monitor_pass E C) (\<lambda>_. intr (sleep 1))"

text \<open>
  \<open>while True\<close> never ends by itself, so the loop takes fuel: \<open>None\<close> says that the
  loop is still running after that many iterations.
\<close>

fun monitor_loop :: "nat \<Rightarrow> env \<Rightarrow> cfg \<Rightarrow> world \<Rightarrow> (unit outcome \<times> world) option" where
  "monitor_loop 0 E C w = None"
| "monitor_loop (Suc n) E C w =
     (case loop_iteration E C w of
        (Ret _, w') \<Rightarrow> monitor_loop n E C w'
      | (Raise e, w') \<Rightarrow> Some (Raise e, w')
      | (SysExit k, w') \<Rightarrow> Some (SysExit k, w')
      | (Signalled s, w') \<Rightarrow> Some (Signalled s, w')
      | (Killed s, w') \<Rightarrow> Some (Killed s, w'))"

text \<open>Lines 110 to 128: the loop inside \<open>try ... except KeyboardInterrupt\<close>.\<close>

definition guarded_loop :: "nat \<Rightarrow> env \<Rightarrow> cfg \<Rightarrow> world \<Rightarrow> (unit outcome \<times> world) option" where
  "guarded_loop n E C w =
     (case monitor_loop n E C w of
        Some (Raise e, w') \<Rightarrow>
          (if is_KeyboardInterrupt e then Some (handle_sig E SIGINT w') else Some (Raise e, w'))
      | r \<Rightarrow> r)"

definition check_binary :: "env \<Rightarrow> cfg \<Rightarrow> unit prog" where
  "check_binary E C =
     bnd (intr (path_exists E (mk_path E (TCPDUMP_BIN C)))) (\<lambda>found.
       if found then ret ()
       else bnd (intr (py_print_err (MsgNoBinary (TCPDUMP_BIN C)))) (\<lambda>_. sys_exit 2))"

definition ensure_output_dir :: "env \<Rightarrow> cfg \<Rightarrow> unit prog" where
  "ensure_output_dir E C =
     bnd (intr (path_exists E (OUTPUT_DIR C))) (\<lambda>found.
       if found then ret ()
       else try_except is_Exception (intr (mkdir E (OUTPUT_DIR C)))
              (\<lambda>e. bnd (intr (py_print_err (MsgMkdirFailed (OUTPUT_DIR C) e))) (\<lambda>_. sys_exit 2)))"

text \<open>Lines 94 to 108: everything of \<open>main\<close> before the loop.\<close>

definition main_prefix :: "env \<Rightarrow> cfg \<Rightarrow> unit prog" where
  "main_prefix E C =
     bnd (intr (signal_signal SIGTERM)) (\<lambda>_.
     bnd (intr (signal_signal SIGINT)) (\<lambda>_.
     bnd (check_binary E C) (\<lambda>_.
     bnd (ensure_output_dir E C) (\<lambda>_.
     start_all E C))))"

definition main_body :: "nat \<Rightarrow> env \<Rightarrow> cfg \<Rightarrow> world \<Rightarrow> (unit outcome \<times> world) option" where
  "main_body n E C w =
     (case main_prefix E C w of
        (Ret _, w') \<Rightarrow> guarded_loop n E C w'
      | (Raise e, w') \<Rightarrow> Some (Raise e, w')
      | (SysExit k, w') \<Rightarrow> Some (SysExit k, w')
      | (Signalled s, w') \<Rightarrow> Some (Signalled s, w')
      | (Killed s, w') \<Rightarrow> Some (Killed s, w'))"

text \<open>
  \<open>main\<close> with the signal handler: when a signal cuts the body short, \<open>handle_sig\<close>
  runs on the world of that moment and its \<open>sys.exit(0)\<close> ends the process (nothing
  in \<open>main\<close> catches SystemExit and \<open>main\<close> has no \<open>finally\<close>).
\<close>

definition main :: "nat \<Rightarrow> env \<Rightarrow> cfg \<Rightarrow> world \<Rightarrow> (unit outcome \<times> world) option" where
  "main n E C w =
     (case main_body n E C w of
        Some (Signalled s, w') \<Rightarrow> Some (handle_sig E s w')
      | r \<Rightarrow> r)"

text \<open>The whole script: the module level, then \<open>main()\<close>.\<close>

definition program :: "nat \<Rightarrow> env \<Rightarrow> world \<Rightarrow> (unit outcome \<times> world) option" where
  "program n E w =
     (case module_init E w of
        (Ret C, w') \<Rightarrow> main n E C w'
      | (Raise e, w') \<Rightarrow> Some (Raise e, w')
      | (SysExit k, w') \<Rightarrow> Some (SysExit k, w')
      | (Signalled s, w') \<Rightarrow> Some (Signalled s, w')
      | (Killed s, w') \<Rightarrow> Some (Killed s, w'))"

text \<open>
  The exit status of the interpreter: the argument of \<open>sys.exit\<close>, 1 for an uncaught
  exception, 0 when the script runs to its end. A process that a signal ends has no
  exit status; that is also how an uncaught KeyboardInterrupt ends the interpreter
  (which then sends SIGINT to itself, Python 3.8 and later). A delivered signal is
  not a final outcome (\<open>main\<close> turns it into the handler's).
\<close>

fun exit_status :: "unit outcome \<Rightarrow> int option" where
  "exit_status (Ret _) = Some 0"
| "exit_status (Raise e) = (if is_KeyboardInterrupt e then None else Some 1)"
| "exit_status (SysExit k) = Some k"
| "exit_status (Signalled s) = None"
| "exit_status (Killed s) = None"

text \<open>The world in which the script starts: the first signal, if any, and nothing else.\<close>

definition initial_world :: "(nat \<times> int) option \<Rightarrow> world" where
  "initial_world sig =
     \<lparr>processes = [], open_files = [], next_pid = 0, next_fd = 0, clock = 0, tick = 0,
      trace = [], signal_at = sig, later_signals = [], handlers = []\<rparr>"

section \<open>Observations on worlds and traces\<close>

text \<open>The events that a piece of the script added to the trace, between two worlds.\<close>

definition events_since :: "world \<Rightarrow> world \<Rightarrow> event list" where
  "events_since w w' = drop (length (trace w)) (trace w')"

text \<open>The handle and the sink of an entry \<open>(iface, (p, f_err))\<close> of the registry.\<close>

fun unit_handle :: "string \<times> nat \<times> nat \<Rightarrow> nat" where
  "unit_handle (iface, p, f) = p"

fun unit_sink :: "string \<times> nat \<times> nat \<Rightarrow> nat" where
  "unit_sink (iface, p, f) = f"

text \<open>The handles on which \<open>terminate()\<close> was called, and the files on which \<open>close()\<close> was.\<close>

definition terminate_calls :: "event list \<Rightarrow> nat list" where
  "terminate_calls evs = concat (map (\<lambda>e. case e of ETerminate p ok \<Rightarrow> [p] | _ \<Rightarrow> []) evs)"

definition close_calls :: "event list \<Rightarrow> nat list" where
  "close_calls evs = concat (map (\<lambda>e. case e of EClose f ok \<Rightarrow> [f] | _ \<Rightarrow> []) evs)"

text \<open>The handles that \<open>Popen\<close> returned, and the file objects that \<open>open\<close> returned.\<close>

definition spawned :: "event list \<Rightarrow> nat list" where
  "spawned evs = concat (map (\<lambda>e. case e of EPopen c out err (Some p) \<Rightarrow> [p] | _ \<Rightarrow> []) evs)"

definition opened :: "event list \<Rightarrow> nat list" where
  "opened evs = concat (map (\<lambda>e. case e of EOpen p m (Some f) \<Rightarrow> [f] | _ \<Rightarrow> []) evs)"

text \<open>The handles on which \<open>poll()\<close> was called.\<close>

definition polled :: "event list \<Rightarrow> nat list" where
  "polled evs = concat (map (\<lambda>e. case e of EPoll p r \<Rightarrow> [p] | _ \<Rightarrow> []) evs)"

text \<open>The signals for which the line \<open>Received signal <signum>, shutting down...\<close> was printed.\<close>

definition received :: "event list \<Rightarrow> int list" where
  "received evs =
     concat (map (\<lambda>e. case e of
                         EPrint m \<Rightarrow> (case m of MsgReceived s \<Rightarrow> [s] | _ \<Rightarrow> [])
                       | _ \<Rightarrow> []) evs)"

text \<open>
  The exception that a call of \<open>stop_all\<close>'s \<open>try\<close> block let escape to
  \<open>except Exception\<close>: a failed \<open>terminate\<close> or \<open>kill\<close>, or a wait that timed out after
  the kill (the time-out of the first wait is handled by the inner \<open>except\<close>).
\<close>

definition raised :: "bool \<Rightarrow> event \<Rightarrow> exn option" where
  "raised after_kill e =
     (case e of
        ETerminate p ok \<Rightarrow> (if ok then None else Some OSError)
      | EKill p ok \<Rightarrow> (if ok then None else Some OSError)
      | EWait p t ok \<Rightarrow> (if after_kill \<and> \<not> ok then Some TimeoutExpired else None)
      | _ \<Rightarrow> None)"

text \<open>
  A trace of \<open>stop_all\<close> logs its errors when every call that raised is followed at
  once by the line \<open>Error stopping <iface>: <e>\<close> for the unit being stopped (the unit
  of the last \<open>Stopping tcpdump for <iface>\<close> line) and the exception raised.
\<close>

fun errors_logged :: "string \<Rightarrow> bool \<Rightarrow> event list \<Rightarrow> bool" where
  "errors_logged cur k [] = True"
| "errors_logged cur k (e # evs) =
     ((case raised k e of
         None \<Rightarrow> True
       | Some x \<Rightarrow> (case evs of [] \<Rightarrow> False | e' # _ \<Rightarrow> e' = EPrint (MsgErrorStopping cur x)))
      \<and> errors_logged (case e of EPrint (MsgStopping i p) \<Rightarrow> i | _ \<Rightarrow> cur)
           (case e of EKill p ok \<Rightarrow> ok | _ \<Rightarrow> False) evs)"

text \<open>
  The five ways the shutdown of one unit can go, as traces: the child exits within the
  first wait; it is killed and exits within the second wait; it is killed and the
  second wait times out; \<open>kill\<close> raises; \<open>terminate\<close> raises. Each ends with one
  \<open>close\<close> of the unit's sink, which succeeds or not.
\<close>

definition stop_shape :: "string \<Rightarrow> nat \<Rightarrow> nat \<Rightarrow> event list \<Rightarrow> bool" where
  "stop_shape iface p f evs =
     (\<exists>c.
        evs = [EPrint (MsgStopping iface p), ETerminate p True, EWait p 5 True, EClose f c] \<or>
        evs = [EPrint (MsgStopping iface p), ETerminate p True, EWait p 5 False,
               EKill p True, EWait p 5 True, EClose f c] \<or>
        evs = [EPrint (MsgStopping iface p), ETerminate p True, EWait p 5 False,
               EKill p True, EWait p 5 False,
               EPrint (MsgErrorStopping iface TimeoutExpired), EClose f c] \<or>
        evs = [EPrint (MsgStopping iface p), ETerminate p True, EWait p 5 False,
               EKill p False, EPrint (MsgErrorStopping iface OSError), EClose f c] \<or>
        evs = [EPrint (MsgStopping iface p), ETerminate p False,
               EPrint (MsgErrorStopping iface OSError), EClose f c])"

text \<open>
  A trace is the shutdown of the units \<open>us\<close>, one after the other and nothing else,
  when it can be cut into one piece per unit, in the order of \<open>us\<close>, each piece one of
  the five shapes for its unit. (The cut is searched among the prefixes of the trace.)
\<close>

fun stop_shapes :: "(string \<times> nat \<times> nat) list \<Rightarrow> event list \<Rightarrow> bool" where
  "stop_shapes [] evs = (evs = [])"
| "stop_shapes (u # us) evs =
     list_ex
       (\<lambda>n. stop_shape (fst u) (unit_handle u) (unit_sink u) (take n evs) \<and>
            stop_shapes us (drop n evs))
       [0 ..< Suc (length evs)]"

text \<open>
  What a run of \<open>start_all\<close> that returns adds to the trace and makes of the registry,
  as functions of the names and of the first fresh handle and file object: for each
  name an \<open>open\<close>, a \<open>Popen\<close> and the line \<open>Started tcpdump for <iface>\<close>, and the
  assignment \<open>processes[iface] = (p, f_err)\<close>. (\<open>start_units_Ret\<close> proves that
  \<open>start_all\<close> does this.)
\<close>

fun start_events :: "env \<Rightarrow> cfg \<Rightarrow> nat \<Rightarrow> nat \<Rightarrow> string list \<Rightarrow> event list" where
  "start_events E C np nf [] = []"
| "start_events E C np nf (iface # rest) =
     [EOpen (joinpath E (OUTPUT_DIR C) (iface @ ''.stderr.log'')) ''ab'' (Some nf),
      EPopen (build_cmd E C iface (OUTPUT_DIR C)) DEVNULL (ToFile nf) (Some np),
      EPrint (MsgStarted iface np (OUTPUT_DIR C))]
     @ start_events E C (Suc np) (Suc nf) rest"

fun start_registry ::
  "nat \<Rightarrow> nat \<Rightarrow> string list \<Rightarrow> (string \<times> nat \<times> nat) list \<Rightarrow> (string \<times> nat \<times> nat) list"
where
  "start_registry np nf [] r = r"
| "start_registry np nf (iface # rest) r =
     start_registry (Suc np) (Suc nf) rest (AList.update iface (np, nf) r)"

text \<open>
  The registry and the open files fit together when no two entries share a sink,
  every sink was numbered before the next fresh file object, and the open files are
  the sinks of the registry, each once.
\<close>

definition tidy :: "world \<Rightarrow> bool" where
  "tidy w =
     (distinct (map fst (processes w)) \<and>
      distinct (map unit_sink (processes w)) \<and>
      distinct (open_files w) \<and>
      set (open_files w) = set (map unit_sink (processes w)) \<and>
      list_all (\<lambda>f. f < next_fd w) (map unit_sink (processes w)))"

text \<open>
  \<open>quiet w k\<close>: no signal is delivered before any of the next \<open>k\<close> calls (none is
  pending, or the next one is not due before \<open>k\<close> more calls are made).
\<close>

definition quiet :: "world \<Rightarrow> nat \<Rightarrow> bool" where
  "quiet w k = (case signal_at w of None \<Rightarrow> True | Some (t, s) \<Rightarrow> tick w + k \<le> t)"

text \<open>\<open>handle_sig\<close> is installed for every signal that is pending.\<close>

definition handled :: "world \<Rightarrow> bool" where
  "handled w = list_all (\<lambda>x. snd x \<in> set (handlers w)) (pending w)"

text \<open>
  A shutdown begins inside a restart when its first line is printed after the line
  \<open>tcpdump for <iface> exited with code ...\<close> of a restart and before the line
  \<open>Restarted tcpdump for <iface>\<close> that ends it. The flag says whether a restart is
  in flight.
\<close>

fun in_flight :: "bool \<Rightarrow> event list \<Rightarrow> bool" where
  "in_flight b [] = False"
| "in_flight b (EPrint (MsgExited i c) # evs) = in_flight True evs"
| "in_flight b (EPrint (MsgRestarted i p) # evs) = in_flight False evs"
| "in_flight b (EPrint (MsgReceived s) # evs) = (b \<or> in_flight b evs)"
| "in_flight b (e # evs) = in_flight b evs"

definition shutdown_in_restart :: "event list \<Rightarrow> bool" where
  "shutdown_in_restart evs = in_flight False evs"

text \<open>
  A piece of the script preserves a property of the world, whatever its outcome. The
  properties used below: the registry has the keys \<open>K\<close>, in this order; no shutdown
  line has been printed so far; the shutdown lines printed and the signals pending
  are no more than \<open>c\<close> together.
\<close>

definition preserves :: "(world \<Rightarrow> bool) \<Rightarrow> 'a prog \<Rightarrow> bool" where
  "preserves P m = (\<forall>w. P w \<longrightarrow> P (snd (m w)))"

definition has_keys :: "string list \<Rightarrow> world \<Rightarrow> bool" where
  "has_keys K w = (map fst (processes w) = K)"

definition no_shutdown_yet :: "world \<Rightarrow> bool" where
  "no_shutdown_yet w = (received (trace w) = [])"

definition budget :: "nat \<Rightarrow> world \<Rightarrow> bool" where
  "budget c w = (length (received (trace w)) + length (pending w) \<le> c)"

section \<open>Example environments\<close>

text \<open>
  \<open>str.strip()\<close> on the characters of the model (code points below 256): it removes,
  at both ends, the characters 9 to 13, 28 to 32, 133 and 160.
\<close>

definition is_space :: "char \<Rightarrow> bool" where
  "is_space c = ((9 \<le> (of_char c :: nat) \<and> (of_char c :: nat) \<le> 13) \<or>
                 (28 \<le> (of_char c :: nat) \<and> (of_char c :: nat) \<le> 32) \<or>
                 (of_char c :: nat) = 133 \<or> (of_char c :: nat) = 160)"

definition strip :: "string \<Rightarrow> string" where
  "strip s = rev (dropWhile is_space (rev (dropWhile is_space s)))"

text \<open>
  An environment in which every call succeeds, no child exits by itself, and a child
  asked to terminate exits after one time unit.
\<close>

definition env_ok :: env where
  "env_ok =
     \<lparr>conf = Settings
         \<lparr>raw_interfaces = Found ''eth0, eth1'', raw_output_dir = Absent,
          raw_tcpdump_bin = Absent, raw_rotate_size_mb = Absent,
          raw_max_rotated_files = Found 5, raw_extra_args = Found ''-n, -v''\<rparr>,
      str_strip = strip,
      mk_path = (\<lambda>s. s),
      joinpath = (\<lambda>d f. d @ ''/'' @ f),
      exists_at = (\<lambda>t p. True),
      mkdir_fails = (\<lambda>t p. False),
      open_fails = (\<lambda>t p. False),
      popen_fails = (\<lambda>t c. False),
      poll_at = (\<lambda>t p. None),
      terminate_fails = (\<lambda>t p. False),
      kill_fails = (\<lambda>t p. False),
      exits_within = (\<lambda>t p. Some 1),
      close_fails = (\<lambda>t f. False)\<rparr>"

text \<open>Child 0 cannot be signalled; child 1 ignores the termination request and the kill.\<close>

definition env_stubborn :: env where
  "env_stubborn =
     env_ok\<lparr>terminate_fails := (\<lambda>t p. p = 0), exits_within := (\<lambda>t p. None),
            close_fails := (\<lambda>t f. f = 1)\<rparr>"

text \<open>The child with handle 1 is always found exited; every other call succeeds.\<close>

definition env_exit :: env where
  "env_exit = env_ok\<lparr>poll_at := (\<lambda>t p. if p = 1 then Some 1 else None)\<rparr>"

text \<open>
  The child with handle 0 is found exited, and from call number 10 on no file can be
  opened (in a run of \<open>main\<close> on two interfaces the two sinks of \<open>start_all\<close> are
  opened before that, and the sink of a restart after it).
\<close>

definition env_crash :: env where
  "env_crash =
     env_ok\<lparr>poll_at := (\<lambda>t p. if p = 0 then Some 1 else None), open_fails := (\<lambda>t p. 10 \<le> t)\<rparr>"

text \<open>
  The child with handle 1 is found exited, and from call number 12 on no child can be
  spawned (in a run of \<open>main\<close> on two interfaces the calls 0 to 11 are those made
  before the loop).
\<close>

definition env_no_respawn :: env where
  "env_no_respawn =
     env_ok\<lparr>poll_at := (\<lambda>t p. if p = 1 then Some 1 else None), popen_fails := (\<lambda>t c. 12 \<le> t)\<rparr>"

text \<open>The configuration is readable and the output directory cannot be created.\<close>

definition env_nodir :: env where
  "env_nodir =
     env_ok\<lparr>exists_at := (\<lambda>t p. p \<noteq> ''/var/log/tcpdump''), mkdir_fails := (\<lambda>t p. True)\<rparr>"

text \<open>
  The directory is created at module level, is missing again when \<open>main\<close> looks
  (call number 4), and cannot be created then.
\<close>

definition env_dir_vanishes :: env where
  "env_dir_vanishes =
     env_ok\<lparr>exists_at := (\<lambda>t p. p \<noteq> ''/var/log/tcpdump''), mkdir_fails := (\<lambda>t p. 0 < t)\<rparr>"

text \<open>Two interfaces, as \<open>module_init\<close> reads them from the settings of \<open>env_ok\<close>.\<close>

definition cfg_two :: cfg where
  "cfg_two =
     \<lparr>INTERFACES = [''eth0'', ''eth1''], OUTPUT_DIR = ''/var/log/tcpdump'',
      TCPDUMP_BIN = ''/usr/bin/tcpdump'', ROTATE_SIZE_MB = 100, MAX_ROTATED_FILES = 5,
      EXTRA_ARGS = [''-n'', ''-v'']\<rparr>"

text \<open>The configuration \<open>interfaces = eth0, eth0\<close>: the same name twice.\<close>

definition cfg_dup :: cfg where
  "cfg_dup = cfg_two\<lparr>INTERFACES := parse_list env_ok ''eth0, eth0''\<rparr>"

text \<open>The world after \<open>start_all\<close> has started two units.\<close>

definition world_two :: world where
  "world_two =
     \<lparr>processes = [(''eth0'', 0, 0), (''eth1'', 1, 1)], open_files = [0, 1], next_pid = 2,
      next_fd = 2, clock = 0, tick = 11, trace = [], signal_at = None, later_signals = [],
      handlers = [SIGINT, SIGTERM]\<rparr>"

text \<open>A world in which the handlers are installed and SIGTERM arrives before call 22.\<close>

definition world_sigterm :: world where
  "world_sigterm = (initial_world (Some (22, SIGTERM)))\<lparr>handlers := [SIGINT, SIGTERM]\<rparr>"

text \<open>
  A run of \<open>main\<close> on two interfaces in which the child of \<open>eth1\<close> is found exited in
  the first pass and SIGTERM arrives before call number 19: after the \<open>Popen\<close> of the
  restart (call 18) and before the assignment to \<open>processes[iface]\<close>.
\<close>

definition world_hit :: world where
  "world_hit = initial_world (Some (19, SIGTERM))"

text \<open>
  The same run, in which SIGINT arrives before call number 22: inside the \<open>stop_all\<close>
  of the shutdown that SIGTERM has started, after \<open>terminate\<close> was called on the
  first child.
\<close>

definition world_hit_twice :: world where
  "world_hit_twice = world_hit\<lparr>later_signals := [(22, SIGINT)]\<rparr>"

section \<open>Basic facts\<close>

lemmas prim_defs = py_print_def py_print_err_def sys_exit_def path_exists_def mkdir_def
  py_open_def py_close_def popen_def poll_def terminate_def kill_def wait_def sleep_def
  set_entry_def clear_processes_def emit_def ret_def

lemmas comb_defs = bnd_def try_except_def try_finally_def

lemma bnd_Ret: "fst (m w) = Ret x \<Longrightarrow> bnd m f w = f x (snd (m w))"
  by (cases "m w") (simp add: bnd_def)

lemma events_since_append: "trace w' = trace w @ evs \<Longrightarrow> events_since w w' = evs"
  by (simp add: events_since_def)

lemma fst_snd_pair: "fst x = a \<Longrightarrow> x = (a, snd x)"
  by (cases x) simp

lemma map_option_fst_Some: "map_option fst x = Some a \<Longrightarrow> \<exists>b. x = Some (a, b)"
  by (cases x) auto

lemma unit_proj: "unit_handle u = fst (snd u)" "unit_sink u = snd (snd u)"
  by (cases u; simp)+

section \<open>stop_all\<close>

lemma stop_unit_ret: "fst (stop_unit E u w) = Ret ()"
  by (cases u) (simp add: stop_unit_def prim_defs comb_defs split: option.splits)

lemma stop_unit_processes: "processes (snd (stop_unit E u w)) = processes w"
  by (cases u) (simp add: stop_unit_def prim_defs comb_defs split: option.splits)

lemma stop_unit_clock: "clock (snd (stop_unit E u w)) \<le> clock w + 10"
  by (cases u) (simp add: stop_unit_def prim_defs comb_defs split: option.splits)

lemma stop_unit_open_files:
  "open_files (snd (stop_unit E (iface, p, f) w)) = removeAll f (open_files w)"
  by (simp add: stop_unit_def prim_defs comb_defs split: option.splits)

lemma stop_unit_trace:
  "\<exists>evs. trace (snd (stop_unit E (iface, p, f) w)) = trace w @ evs \<and> stop_shape iface p f evs"
  by (auto simp add: stop_unit_def prim_defs comb_defs stop_shape_def split: option.splits)

lemma stop_shape_calls:
  "stop_shape iface p f evs \<Longrightarrow> terminate_calls evs = [p] \<and> close_calls evs = [f]"
  by (auto simp: stop_shape_def terminate_calls_def close_calls_def)

lemma stop_shape_logged:
  "stop_shape iface p f evs \<Longrightarrow>
   errors_logged cur False (evs @ rest) = errors_logged iface False rest"
  by (auto simp: stop_shape_def raised_def)

lemma stop_units_ret: "fst (stop_units E us w) = Ret ()"
  by (induction us arbitrary: w) (simp_all add: ret_def bnd_Ret [OF stop_unit_ret])

lemma stop_units_processes: "processes (snd (stop_units E us w)) = processes w"
  by (induction us arbitrary: w)
    (simp_all add: ret_def bnd_Ret [OF stop_unit_ret] stop_unit_processes)

lemma stop_units_clock: "clock (snd (stop_units E us w)) \<le> clock w + 10 * length us"
proof (induction us arbitrary: w)
  case Nil
  show ?case by (simp add: ret_def)
next
  case (Cons u us)
  have "clock (snd (stop_units E us (snd (stop_unit E u w))))
          \<le> clock (snd (stop_unit E u w)) + 10 * length us"
    by (rule Cons.IH)
  also have "\<dots> \<le> (clock w + 10) + 10 * length us"
    using stop_unit_clock [of E u w] by simp
  finally show ?case by (simp add: bnd_Ret [OF stop_unit_ret])
qed

lemma stop_units_open_files:
  "set (open_files (snd (stop_units E us w))) = set (open_files w) - set (map unit_sink us)"
proof (induction us arbitrary: w)
  case Nil
  show ?case by (simp add: ret_def)
next
  case (Cons u us)
  obtain iface p f where u: "u = (iface, p, f)" by (cases u) auto
  show ?case
    using Cons.IH [of "snd (stop_unit E u w)"] stop_unit_open_files [of E iface p f w]
    by (auto simp: u bnd_Ret [OF stop_unit_ret])
qed

lemma stop_units_trace:
  "\<exists>evs. trace (snd (stop_units E us w)) = trace w @ evs \<and>
     terminate_calls evs = map unit_handle us \<and>
     close_calls evs = map unit_sink us \<and>
     (\<forall>cur. errors_logged cur False evs)"
proof (induction us arbitrary: w)
  case Nil
  show ?case by (simp add: ret_def terminate_calls_def close_calls_def)
next
  case (Cons u us)
  obtain iface p f where u: "u = (iface, p, f)" by (cases u) auto
  obtain evs1 where e1: "trace (snd (stop_unit E u w)) = trace w @ evs1"
      "stop_shape iface p f evs1"
    using stop_unit_trace [of E iface p f w] u by auto
  obtain evs2 where e2:
      "trace (snd (stop_units E us (snd (stop_unit E u w)))) = trace (snd (stop_unit E u w)) @ evs2"
      "terminate_calls evs2 = map unit_handle us"
      "close_calls evs2 = map unit_sink us"
      "\<forall>cur. errors_logged cur False evs2"
    using Cons.IH [of "snd (stop_unit E u w)"] by auto
  have calls: "terminate_calls evs1 = [p]" "close_calls evs1 = [f]"
    using stop_shape_calls [OF e1(2)] by auto
  have "terminate_calls (evs1 @ evs2) = map unit_handle (u # us)"
    using calls e2(2) u by (simp add: terminate_calls_def)
  moreover have "close_calls (evs1 @ evs2) = map unit_sink (u # us)"
    using calls e2(3) u by (simp add: close_calls_def)
  moreover have "\<forall>cur. errors_logged cur False (evs1 @ evs2)"
    using stop_shape_logged [OF e1(2)] e2(4) by simp
  moreover have "trace (snd (stop_units E (u # us) w)) = trace w @ (evs1 @ evs2)"
    using e1(1) e2(1) by (simp add: bnd_Ret [OF stop_unit_ret])
  ultimately show ?case by blast
qed

lemma stop_all_unfold:
  "stop_all E w = clear_processes (snd (stop_units E (processes w) w))"
  by (simp add: stop_all_def bnd_Ret [OF stop_units_ret])

lemma stop_all_facts:
  "fst (stop_all E w) = Ret () \<and>
   processes (snd (stop_all E w)) = [] \<and>
   trace (snd (stop_all E w)) = trace w @ events_since w (snd (stop_all E w)) \<and>
   terminate_calls (events_since w (snd (stop_all E w))) = map unit_handle (processes w) \<and>
   close_calls (events_since w (snd (stop_all E w))) = map unit_sink (processes w) \<and>
   errors_logged [] False (events_since w (snd (stop_all E w))) \<and>
   set (open_files (snd (stop_all E w)))
     = set (open_files w) - set (map unit_sink (processes w))"
proof -
  obtain evs where evs:
      "trace (snd (stop_units E (processes w) w)) = trace w @ evs"
      "terminate_calls evs = map unit_handle (processes w)"
      "close_calls evs = map unit_sink (processes w)"
      "\<forall>cur. errors_logged cur False evs"
    using stop_units_trace [of E "processes w" w] by auto
  have tr: "trace (snd (stop_all E w)) = trace w @ evs"
    using evs(1) by (simp add: stop_all_unfold clear_processes_def)
  have since: "events_since w (snd (stop_all E w)) = evs"
    by (rule events_since_append [OF tr])
  have "fst (stop_all E w) = Ret ()" "processes (snd (stop_all E w)) = []"
    by (simp_all add: stop_all_unfold clear_processes_def)
  moreover have "set (open_files (snd (stop_all E w)))
     = set (open_files w) - set (map unit_sink (processes w))"
    using stop_units_open_files [of E "processes w" w]
    by (simp add: stop_all_unfold clear_processes_def)
  ultimately show ?thesis
    using evs tr since by simp
qed

text \<open>
  Claim C3. \<open>stop_all\<close> is best effort. Whatever the operating system answers, it
  returns normally and leaves the registry empty; \<open>terminate\<close> is called on the handle
  of every unit of the registry, in the registry's order, and \<open>close\<close> on the sink of
  every unit, in the same order, so that no error on one unit keeps the others from
  being attempted; every call that raised is followed by the line that logs it; and
  the sinks of the registry are no longer open afterwards, whether \<open>close\<close> raised
  or not.
\<close>

theorem stop_all_best_effort:
  "fst (stop_all E w) = Ret () \<and>
   processes (snd (stop_all E w)) = [] \<and>
   trace (snd (stop_all E w)) = trace w @ events_since w (snd (stop_all E w)) \<and>
   terminate_calls (events_since w (snd (stop_all E w))) = map unit_handle (processes w) \<and>
   close_calls (events_since w (snd (stop_all E w))) = map unit_sink (processes w) \<and>
   errors_logged [] False (events_since w (snd (stop_all E w))) \<and>
   set (open_files (snd (stop_all E w)))
     = set (open_files w) - set (map unit_sink (processes w))"
  by (rule stop_all_facts)

theorem stop_all_best_effort_witness:
  "fst (stop_all env_stubborn world_two) = Ret () \<and>
   processes (snd (stop_all env_stubborn world_two)) = [] \<and>
   terminate_calls (events_since world_two (snd (stop_all env_stubborn world_two))) = [0, 1] \<and>
   close_calls (events_since world_two (snd (stop_all env_stubborn world_two))) = [0, 1] \<and>
   errors_logged [] False (events_since world_two (snd (stop_all env_stubborn world_two))) \<and>
   set (open_files (snd (stop_all env_stubborn world_two))) = {}"
  using stop_all_best_effort [of env_stubborn world_two]
  by (simp add: world_two_def)

lemma stop_shapes_append:
  assumes "stop_shape iface p f evs1" and "stop_shapes us evs2"
  shows "stop_shapes ((iface, p, f) # us) (evs1 @ evs2)"
proof -
  have "length evs1 \<in> set [0 ..< Suc (length (evs1 @ evs2))]"
    by simp
  moreover have "stop_shape (fst (iface, p, f)) (unit_handle (iface, p, f))
      (unit_sink (iface, p, f)) (take (length evs1) (evs1 @ evs2)) \<and>
      stop_shapes us (drop (length evs1) (evs1 @ evs2))"
    using assms by simp
  ultimately show ?thesis
    unfolding stop_shapes.simps list_ex_iff by (rule bexI [rotated])
qed

lemma stop_units_shapes:
  "\<exists>evs. trace (snd (stop_units E us w)) = trace w @ evs \<and> stop_shapes us evs"
proof (induction us arbitrary: w)
  case Nil
  show ?case by (simp add: ret_def)
next
  case (Cons u us)
  obtain iface p f where u: "u = (iface, p, f)" by (cases u) auto
  obtain evs1 where e1: "trace (snd (stop_unit E u w)) = trace w @ evs1"
      "stop_shape iface p f evs1"
    using stop_unit_trace [of E iface p f w] u by auto
  obtain evs2 where e2:
      "trace (snd (stop_units E us (snd (stop_unit E u w)))) = trace (snd (stop_unit E u w)) @ evs2"
      "stop_shapes us evs2"
    using Cons.IH [of "snd (stop_unit E u w)"] by auto
  have "trace (snd (stop_units E (u # us) w)) = trace w @ (evs1 @ evs2)"
    using e1(1) e2(1) by (simp add: bnd_Ret [OF stop_unit_ret])
  moreover have "stop_shapes (u # us) (evs1 @ evs2)"
    unfolding u using e1(2) e2(2) by (rule stop_shapes_append)
  ultimately show ?case by blast
qed

lemma stop_all_shapes: "stop_shapes (processes w) (events_since w (snd (stop_all E w)))"
proof -
  obtain evs where evs: "trace (snd (stop_units E (processes w) w)) = trace w @ evs"
      "stop_shapes (processes w) evs"
    using stop_units_shapes [of E "processes w" w] by auto
  have "trace (snd (stop_all E w)) = trace w @ evs"
    using evs(1) by (simp add: stop_all_unfold clear_processes_def)
  then have "events_since w (snd (stop_all E w)) = evs"
    by (rule events_since_append)
  then show ?thesis
    using evs(2) by simp
qed

lemma stop_all_clock: "clock (snd (stop_all E w)) \<le> clock w + (5 + 5) * length (processes w)"
proof -
  have "clock (snd (stop_all E w)) = clock (snd (stop_units E (processes w) w))"
    by (simp add: stop_all_unfold clear_processes_def)
  then show ?thesis
    using stop_units_clock [of E "processes w" w] by simp
qed

text \<open>
  Claim C4. Whatever the children do, \<open>stop_all\<close> returns, and the time it spends in
  blocking calls is at most 5 + 5 (the two time-outs passed to \<open>wait\<close>) per unit of
  the registry. Its own trace is, unit after unit in the order of the registry, one
  of the five shapes of \<open>stop_shape\<close> and nothing else: for every unit the first
  call is the termination request, followed by a wait of at most 5; when that wait
  times out the next call is \<open>kill\<close>, followed (unless \<open>kill\<close> raised) by a second
  wait of at most 5; and the piece of every unit, killed or not, ends with the one
  \<open>close\<close> of its sink. So every sink is closed as many times as the registry holds
  it: exactly once when one unit holds it.
\<close>

theorem stop_all_bounded:
  "fst (stop_all E w) = Ret () \<and>
   clock (snd (stop_all E w)) \<le> clock w + (5 + 5) * length (processes w) \<and>
   stop_shapes (processes w) (events_since w (snd (stop_all E w))) \<and>
   (\<forall>f. count_list (close_calls (events_since w (snd (stop_all E w)))) f
          = count_list (map unit_sink (processes w)) f)"
proof -
  have "fst (stop_all E w) = Ret ()"
    by (simp add: stop_all_unfold clear_processes_def)
  moreover have "close_calls (events_since w (snd (stop_all E w))) = map unit_sink (processes w)"
    using stop_all_facts [of E w] by simp
  ultimately show ?thesis
    using stop_all_clock [of E w] stop_all_shapes [of w E] by simp
qed

theorem stop_all_bounded_witness:
  "fst (stop_all env_stubborn world_two) = Ret () \<and>
   clock (snd (stop_all env_stubborn world_two)) \<le> 20 \<and>
   events_since world_two (snd (stop_all env_stubborn world_two))
     = [EPrint (MsgStopping ''eth0'' 0), ETerminate 0 False,
        EPrint (MsgErrorStopping ''eth0'' OSError), EClose 0 True,
        EPrint (MsgStopping ''eth1'' 1), ETerminate 1 True, EWait 1 5 False,
        EKill 1 True, EWait 1 5 False,
        EPrint (MsgErrorStopping ''eth1'' TimeoutExpired), EClose 1 False] \<and>
   stop_shapes [(''eth0'', 0, 0), (''eth1'', 1, 1)]
     (events_since world_two (snd (stop_all env_stubborn world_two))) \<and>
   count_list (close_calls (events_since world_two (snd (stop_all env_stubborn world_two)))) 1 = 1"
proof -
  note T = stop_all_bounded [of env_stubborn world_two]
  have r: "fst (stop_all env_stubborn world_two) = Ret ()"
    using T by (rule conjunct1)
  have "clock (snd (stop_all env_stubborn world_two))
          \<le> clock world_two + (5 + 5) * length (processes world_two)"
    using T by (elim conjE)
  then have c: "clock (snd (stop_all env_stubborn world_two)) \<le> 20"
    by (simp add: world_two_def)
  have "stop_shapes (processes world_two)
          (events_since world_two (snd (stop_all env_stubborn world_two)))"
    using T by (elim conjE)
  then have s: "stop_shapes [(''eth0'', 0, 0), (''eth1'', 1, 1)]
          (events_since world_two (snd (stop_all env_stubborn world_two)))"
    by (simp add: world_two_def)
  have "count_list (close_calls (events_since world_two (snd (stop_all env_stubborn world_two)))) 1
          = count_list (map unit_sink (processes world_two)) 1"
    using T by (elim conjE) (rule spec)
  then have k: "count_list (close_calls (events_since world_two
          (snd (stop_all env_stubborn world_two)))) 1 = 1"
    by (simp add: world_two_def)
  have e: "events_since world_two (snd (stop_all env_stubborn world_two))
     = [EPrint (MsgStopping ''eth0'' 0), ETerminate 0 False,
        EPrint (MsgErrorStopping ''eth0'' OSError), EClose 0 True,
        EPrint (MsgStopping ''eth1'' 1), ETerminate 1 True, EWait 1 5 False,
        EKill 1 True, EWait 1 5 False,
        EPrint (MsgErrorStopping ''eth1'' TimeoutExpired), EClose 1 False]"
    by code_simp
  show ?thesis
    using r c e s k by (intro conjI)
qed

section \<open>build_cmd\<close>

text \<open>
  Claim C7. \<open>build_cmd\<close> is a function of the interface, the output base and the
  configuration alone (in the model it neither reads nor changes the world): two
  calls agree whenever the binary, the rotation size, the file count and the extra
  arguments are the same and paths are joined the same way, whatever else differs.
  Its first eleven words are the binary, \<open>-i\<close> and the interface, \<open>-s 0\<close> (full
  packets), \<open>-w\<close> and the output path made from the interface name, \<open>-C\<close> and the
  rotation size, \<open>-W\<close> and the number of files kept; the words after them are
  exactly \<open>EXTRA_ARGS\<close>, unchanged and in order.
\<close>

theorem build_cmd_vector:
  assumes "TCPDUMP_BIN C' = TCPDUMP_BIN C"
    and "ROTATE_SIZE_MB C' = ROTATE_SIZE_MB C"
    and "MAX_ROTATED_FILES C' = MAX_ROTATED_FILES C"
    and "EXTRA_ARGS C' = EXTRA_ARGS C"
    and "joinpath E' = joinpath E"
  shows "build_cmd E' C' iface out_base = build_cmd E C iface out_base \<and>
         take 11 (build_cmd E C iface out_base) =
           [TCPDUMP_BIN C, ''-i'', iface, ''-s'', ''0'',
            ''-w'', joinpath E out_base (iface @ ''.pcap''),
            ''-C'', str_int (ROTATE_SIZE_MB C), ''-W'', str_int (MAX_ROTATED_FILES C)] \<and>
         drop 11 (build_cmd E C iface out_base) = EXTRA_ARGS C"
  using assms by (simp add: build_cmd_def)

theorem build_cmd_vector_witness:
  "TCPDUMP_BIN (cfg_two\<lparr>INTERFACES := [], OUTPUT_DIR := ''/tmp''\<rparr>) = TCPDUMP_BIN cfg_two \<and>
   joinpath env_stubborn = joinpath env_ok \<and>
   build_cmd env_stubborn (cfg_two\<lparr>INTERFACES := [], OUTPUT_DIR := ''/tmp''\<rparr>) ''eth0''
       ''/var/log/tcpdump''
     = build_cmd env_ok cfg_two ''eth0'' ''/var/log/tcpdump'' \<and>
   build_cmd env_ok cfg_two ''eth0'' ''/var/log/tcpdump''
     = [''/usr/bin/tcpdump'', ''-i'', ''eth0'', ''-s'', ''0'',
        ''-w'', ''/var/log/tcpdump/eth0.pcap'', ''-C'', ''100'', ''-W'', ''5'', ''-n'', ''-v''] \<and>
   drop 11 (build_cmd env_ok cfg_two ''eth0'' ''/var/log/tcpdump'') = [''-n'', ''-v'']"
proof -
  have h1: "TCPDUMP_BIN (cfg_two\<lparr>INTERFACES := [], OUTPUT_DIR := ''/tmp''\<rparr>) = TCPDUMP_BIN cfg_two"
    and h2: "ROTATE_SIZE_MB (cfg_two\<lparr>INTERFACES := [], OUTPUT_DIR := ''/tmp''\<rparr>)
               = ROTATE_SIZE_MB cfg_two"
    and h3: "MAX_ROTATED_FILES (cfg_two\<lparr>INTERFACES := [], OUTPUT_DIR := ''/tmp''\<rparr>)
               = MAX_ROTATED_FILES cfg_two"
    and h4: "EXTRA_ARGS (cfg_two\<lparr>INTERFACES := [], OUTPUT_DIR := ''/tmp''\<rparr>) = EXTRA_ARGS cfg_two"
    by simp_all
  have h5: "joinpath env_stubborn = joinpath env_ok"
    by (simp add: env_stubborn_def)
  note T = build_cmd_vector [OF h1 h2 h3 h4 h5, of "''eth0''" "''/var/log/tcpdump''"]
  have v: "build_cmd env_ok cfg_two ''eth0'' ''/var/log/tcpdump''
     = [''/usr/bin/tcpdump'', ''-i'', ''eth0'', ''-s'', ''0'',
        ''-w'', ''/var/log/tcpdump/eth0.pcap'', ''-C'', ''100'', ''-W'', ''5'', ''-n'', ''-v'']"
    by code_simp
  have x: "EXTRA_ARGS cfg_two = [''-n'', ''-v'']"
    by (simp add: cfg_two_def)
  show ?thesis
    using T h1 h5 v x by simp
qed

section \<open>start_all\<close>

lemma start_unit_Ret:
  assumes "start_unit E C iface w = (Ret (), w')"
  shows "processes w' = AList.update iface (next_pid w, next_fd w) (processes w)"
    and "open_files w' =
           (case map_of (processes w) iface of
              None \<Rightarrow> open_files w @ [next_fd w]
            | Some old \<Rightarrow>
                release (snd old) (AList.update iface (next_pid w, next_fd w) (processes w))
                  (open_files w @ [next_fd w]))"
    and "next_pid w' = Suc (next_pid w)"
    and "next_fd w' = Suc (next_fd w)"
    and "trace w' = trace w @
           [EOpen (joinpath E (OUTPUT_DIR C) (iface @ ''.stderr.log'')) ''ab'' (Some (next_fd w)),
            EPopen (build_cmd E C iface (OUTPUT_DIR C)) DEVNULL (ToFile (next_fd w)) (Some (next_pid w)),
            EPrint (MsgStarted iface (next_pid w) (OUTPUT_DIR C))]"
  using assms
  by (auto simp: start_unit_def intr_def default_action_def prim_defs comb_defs
      split: option.splits if_splits prod.splits)

lemma upt_plus_Suc: "[n ..< Suc (n + k)] = n # [Suc n ..< Suc (n + k)]"
  by (simp add: upt_rec [of n] del: upt_Suc)

lemma bnd_RetD:
  assumes "bnd m f w = (Ret y, w')"
  obtains x w1 where "m w = (Ret x, w1)" and "f x w1 = (Ret y, w')"
  using assms by (cases "m w") (auto simp: bnd_def split: outcome.splits)

lemma start_units_Ret:
  "start_units E C ifs w = (Ret (), w') \<Longrightarrow>
     processes w' = start_registry (next_pid w) (next_fd w) ifs (processes w) \<and>
     next_pid w' = next_pid w + length ifs \<and>
     next_fd w' = next_fd w + length ifs \<and>
     trace w' = trace w @ start_events E C (next_pid w) (next_fd w) ifs"
proof (induction ifs arbitrary: w)
  case Nil
  then show ?case by (simp add: ret_def)
next
  case (Cons iface rest)
  from Cons.prems obtain w1 where
    u: "start_unit E C iface w = (Ret (), w1)" and r: "start_units E C rest w1 = (Ret (), w')"
    by (auto elim: bnd_RetD)
  note U = start_unit_Ret [OF u]
  note R = Cons.IH [OF r]
  show ?case
    using R by (simp add: U(1,3,4,5))
qed

lemma start_registry_keys:
  "fst ` set (start_registry np nf ifs r) = fst ` set r \<union> set ifs"
  by (induction ifs arbitrary: np nf r) (auto simp: AList.dom_update)

lemma start_registry_distinct:
  "distinct (map fst r) \<Longrightarrow> distinct (map fst (start_registry np nf ifs r))"
  by (induction ifs arbitrary: np nf r) (auto simp: AList.distinct_update)

lemma start_registry_other:
  "x \<notin> set ifs \<Longrightarrow> map_of (start_registry np nf ifs r) x = map_of r x"
  by (induction ifs arbitrary: np nf r) (auto simp: AList.update_conv')

lemma start_registry_last:
  "k < length ifs \<Longrightarrow> ifs ! k \<notin> set (drop (Suc k) ifs) \<Longrightarrow>
   map_of (start_registry np nf ifs r) (ifs ! k) = Some (np + k, nf + k)"
proof (induction ifs arbitrary: np nf r k)
  case Nil
  then show ?case by simp
next
  case (Cons iface rest)
  show ?case
  proof (cases k)
    case 0
    then show ?thesis
      using Cons.prems by (simp add: start_registry_other AList.update_conv')
  next
    case (Suc j)
    then show ?thesis
      using Cons.prems Cons.IH [of j "Suc np" "Suc nf" "AList.update iface (np, nf) r"] by simp
  qed
qed

lemma start_registry_distinct_names:
  "distinct ifs \<Longrightarrow> set ifs \<inter> fst ` set r = {} \<Longrightarrow>
   start_registry np nf ifs r = r @ zip ifs (zip [np ..< np + length ifs] [nf ..< nf + length ifs])"
proof (induction ifs arbitrary: np nf r)
  case Nil
  then show ?case by simp
next
  case (Cons iface rest)
  have upd: "AList.update iface (np, nf) r = r @ [(iface, np, nf)]"
    using Cons.prems(2) by (induction r) auto
  have "set rest \<inter> fst ` set (AList.update iface (np, nf) r) = {}"
    using Cons.prems by (auto simp: AList.dom_update)
  then show ?case
    using Cons.IH [of "AList.update iface (np, nf) r" "Suc np" "Suc nf"] Cons.prems(1)
    by (simp add: upd upt_plus_Suc del: upt_Suc)
qed

lemma start_events_spawned: "spawned (start_events E C np nf ifs) = [np ..< np + length ifs]"
  by (induction ifs arbitrary: np nf) (simp_all add: spawned_def upt_plus_Suc del: upt_Suc)

lemma start_events_opened: "opened (start_events E C np nf ifs) = [nf ..< nf + length ifs]"
  by (induction ifs arbitrary: np nf) (simp_all add: opened_def upt_plus_Suc del: upt_Suc)

lemma start_events_quiet:
  "terminate_calls (start_events E C np nf ifs) = [] \<and> close_calls (start_events E C np nf ifs) = []"
  by (induction ifs arbitrary: np nf) (simp_all add: terminate_calls_def close_calls_def)

lemma start_events_nth:
  "k < length ifs \<Longrightarrow>
   EOpen (joinpath E (OUTPUT_DIR C) (ifs ! k @ ''.stderr.log'')) ''ab'' (Some (nf + k))
     \<in> set (start_events E C np nf ifs) \<and>
   EPopen (build_cmd E C (ifs ! k) (OUTPUT_DIR C)) DEVNULL (ToFile (nf + k)) (Some (np + k))
     \<in> set (start_events E C np nf ifs)"
proof (induction ifs arbitrary: np nf k)
  case Nil
  then show ?case by simp
next
  case (Cons iface rest)
  show ?case
  proof (cases k)
    case 0
    then show ?thesis by simp
  next
    case (Suc j)
    then show ?thesis
      using Cons.prems Cons.IH [of j "Suc nf" "Suc np"] by simp
  qed
qed

lemma map_unit_zip:
  assumes "length ps = length ifs" and "length fs = length ifs"
  shows "map fst (zip ifs (zip ps fs)) = ifs"
    and "map unit_handle (zip ifs (zip ps fs)) = ps"
    and "map unit_sink (zip ifs (zip ps fs)) = fs"
proof -
  show "map fst (zip ifs (zip ps fs)) = ifs"
    using assms by simp
  have "map unit_handle (zip ifs (zip ps fs)) = map fst (map snd (zip ifs (zip ps fs)))"
    by (simp add: unit_proj)
  then show "map unit_handle (zip ifs (zip ps fs)) = ps"
    using assms by simp
  have "map unit_sink (zip ifs (zip ps fs)) = map snd (map snd (zip ifs (zip ps fs)))"
    by (simp add: unit_proj)
  then show "map unit_sink (zip ifs (zip ps fs)) = fs"
    using assms by simp
qed

lemma distinct_nth_not_later:
  "distinct xs \<Longrightarrow> k < length xs \<Longrightarrow> xs ! k \<notin> set (drop (Suc k) xs)"
  by (metis Cons_nth_drop_Suc distinct.simps(2) distinct_drop)

lemma last_occurrence:
  assumes "x \<in> set xs"
  shows "\<exists>j < length xs. xs ! j = x \<and> x \<notin> set (drop (Suc j) xs)"
proof -
  obtain ys zs where s: "xs = ys @ x # zs" "x \<notin> set zs"
    using split_list_last [OF assms] by blast
  have "length ys < length xs" "xs ! length ys = x" "drop (Suc (length ys)) xs = zs"
    using s by simp_all
  then show ?thesis
    using s(2) by blast
qed

lemma start_all_Ret:
  assumes "start_all E C w = (Ret (), w')"
  shows "processes w' = start_registry (next_pid w) (next_fd w) (INTERFACES C) (processes w)"
    and "events_since w w' = start_events E C (next_pid w) (next_fd w) (INTERFACES C)"
  using start_units_Ret [OF assms [unfolded start_all_def]]
  by (simp_all add: events_since_def)

lemma update_new: "map_of r k = None \<Longrightarrow> AList.update k v r = r @ [(k, v)]"
  by (induction r) (auto split: if_splits)

lemma update_old:
  "distinct (map fst r) \<Longrightarrow> map_of r k = Some v0 \<Longrightarrow>
   \<exists>r1 r2. r = r1 @ (k, v0) # r2 \<and> AList.update k v r = r1 @ (k, v) # r2"
proof (induction r)
  case Nil
  then show ?case by simp
next
  case (Cons a r)
  show ?case
  proof (cases "fst a = k")
    case True
    then have "a # r = [] @ (k, v0) # r \<and> AList.update k v (a # r) = [] @ (k, v) # r"
      using Cons.prems(2) by (cases a) simp
    then show ?thesis by blast
  next
    case False
    then have "map_of r k = Some v0"
      using Cons.prems(2) by (cases a) simp
    then obtain r1 r2 where "r = r1 @ (k, v0) # r2" "AList.update k v r = r1 @ (k, v) # r2"
      using Cons.IH Cons.prems(1) by auto
    then have "a # r = (a # r1) @ (k, v0) # r2 \<and>
               AList.update k v (a # r) = (a # r1) @ (k, v) # r2"
      using False by (cases a) simp
    then show ?thesis by blast
  qed
qed

lemma release_sinks: "release f r files = (if f \<in> set (map unit_sink r) then files else removeAll f files)"
proof -
  have "map (snd \<circ> snd) r = map unit_sink r"
    by (simp add: unit_proj(2))
  then show ?thesis
    by (simp add: release_def)
qed

lemma tidy_start_unit:
  assumes "start_unit E C iface w = (Ret (), w')" and "tidy w"
  shows "tidy w'"
proof -
  note U = start_unit_Ret [OF assms(1)]
  let ?r = "processes w"
  let ?nf = "next_fd w"
  let ?v = "(next_pid w, next_fd w)"
  have T: "distinct (map fst ?r)" "distinct (map unit_sink ?r)" "distinct (open_files w)"
    "set (open_files w) = set (map unit_sink ?r)" "\<forall>f \<in> set (map unit_sink ?r). f < ?nf"
    using assms(2) by (simp_all add: tidy_def list_all_iff)
  have fresh: "?nf \<notin> set (map unit_sink ?r)"
    using T(5) by auto
  have keys: "distinct (map fst (processes w'))"
    unfolding U(1) using T(1) by (rule AList.distinct_update)
  show ?thesis
  proof (cases "map_of ?r iface")
    case None
    have r': "processes w' = ?r @ [(iface, ?v)]"
      unfolding U(1) using None by (rule update_new)
    have o': "open_files w' = open_files w @ [?nf]"
      using U(2) None by simp
    show ?thesis
      using keys T fresh by (auto simp: tidy_def list_all_iff r' o' U(4))
  next
    case (Some old)
    obtain po fo where old: "old = (po, fo)"
      by (cases old) auto
    obtain r1 r2 where r: "?r = r1 @ (iface, po, fo) # r2"
      and r': "processes w' = r1 @ (iface, ?v) # r2"
      using update_old [OF T(1), of iface old ?v] Some old U(1) by auto
    have sinks: "map unit_sink ?r = map unit_sink r1 @ fo # map unit_sink r2"
      "map unit_sink (processes w') = map unit_sink r1 @ ?nf # map unit_sink r2"
      by (simp_all add: r r')
    have fo: "fo \<notin> set (map unit_sink r1)" "fo \<notin> set (map unit_sink r2)" "fo \<noteq> ?nf"
      using T(2) fresh unfolding sinks(1) by auto
    have gone: "fo \<notin> set (map unit_sink (processes w'))"
      unfolding sinks(2) using fo by auto
    have "open_files w' = release fo (processes w') (open_files w @ [?nf])"
      using U(2) Some old U(1) by simp
    then have o': "open_files w' = removeAll fo (open_files w) @ [?nf]"
      using gone fo(3) by (simp add: release_sinks)
    have d1: "distinct (map unit_sink (processes w'))"
      using T(2) fresh unfolding sinks by auto
    have d2: "distinct (open_files w')"
      unfolding o' using T(3,4) fresh by (simp add: distinct_removeAll)
    have s: "set (open_files w') = set (map unit_sink (processes w'))"
      unfolding o' sinks(2) using T(4) fo(1,2) unfolding sinks(1) by auto
    have b: "\<forall>f \<in> set (map unit_sink (processes w')). f < next_fd w'"
      unfolding sinks(2) U(4) using T(5) unfolding sinks(1) by (fastforce simp: less_Suc_eq)
    show ?thesis
      using keys d1 d2 s b by (simp add: tidy_def list_all_iff)
  qed
qed

lemma tidy_start_units:
  "start_units E C ifs w = (Ret (), w') \<Longrightarrow> tidy w \<Longrightarrow> tidy w'"
proof (induction ifs arbitrary: w)
  case Nil
  then show ?case by (simp add: ret_def)
next
  case (Cons iface rest)
  from Cons.prems(1) obtain w1 where
    u: "start_unit E C iface w = (Ret (), w1)" and r: "start_units E C rest w1 = (Ret (), w')"
    by (auto elim: bnd_RetD)
  have "tidy w1"
    using u Cons.prems(2) by (rule tidy_start_unit)
  then show ?case
    using Cons.IH [OF r] by simp
qed

lemma tidy_start_all:
  assumes "start_all E C w = (Ret (), w')" and "processes w = []" and "open_files w = []"
  shows "set (open_files w') = set (map unit_sink (processes w'))"
    and "distinct (open_files w')"
    and "distinct (map unit_sink (processes w'))"
    and "length (open_files w') = length (processes w')"
proof -
  have "tidy w"
    using assms(2,3) by (simp add: tidy_def)
  then have t: "tidy w'"
    using tidy_start_units [OF assms(1) [unfolded start_all_def]] by simp
  show s: "set (open_files w') = set (map unit_sink (processes w'))"
    and d1: "distinct (open_files w')"
    and d2: "distinct (map unit_sink (processes w'))"
    using t by (simp_all add: tidy_def)
  have "length (open_files w') = card (set (open_files w'))"
    using d1 by (simp add: distinct_card)
  also have "\<dots> = card (set (map unit_sink (processes w')))"
    using s by simp
  also have "\<dots> = length (map unit_sink (processes w'))"
    using d2 by (rule distinct_card)
  finally show "length (open_files w') = length (processes w')"
    by simp
qed

lemma start_units_fresh_names:
  "start_units E C ifs w = (Ret (), w') \<Longrightarrow> distinct ifs \<Longrightarrow>
   set ifs \<inter> fst ` set (processes w) = {} \<Longrightarrow>
   open_files w' = open_files w @ [next_fd w ..< next_fd w + length ifs]"
proof (induction ifs arbitrary: w)
  case Nil
  then show ?case by (simp add: ret_def)
next
  case (Cons iface rest)
  from Cons.prems(1) obtain w1 where
    u: "start_unit E C iface w = (Ret (), w1)" and r: "start_units E C rest w1 = (Ret (), w')"
    by (auto elim: bnd_RetD)
  note U = start_unit_Ret [OF u]
  have "iface \<notin> fst ` set (processes w)"
    using Cons.prems(3) by auto
  then have none: "map_of (processes w) iface = None"
    by (simp add: map_of_eq_None_iff)
  have o1: "open_files w1 = open_files w @ [next_fd w]"
    using U(2) none by simp
  have "set rest \<inter> fst ` set (processes w1) = {}"
    unfolding U(1) using Cons.prems(2,3) by (auto simp: AList.dom_update)
  then have "open_files w' = open_files w1 @ [next_fd w1 ..< next_fd w1 + length rest]"
    using Cons.IH [OF r] Cons.prems(2) by simp
  then show ?case
    by (simp add: o1 U(4) upt_plus_Suc del: upt_Suc)
qed

lemma registry_value_unique:
  assumes "distinct (map fst r)" and "(x, v) \<in> set r"
  shows "map_of r x = Some v"
  using assms by simp

lemma registry_sink_member: "map_of r x = Some (p, f) \<Longrightarrow> f \<in> set (map unit_sink r)"
proof -
  assume "map_of r x = Some (p, f)"
  then have "(x, p, f) \<in> set r"
    by (rule map_of_SomeD)
  then have "unit_sink (x, p, f) \<in> unit_sink ` set r"
    by (rule imageI)
  then show ?thesis
    by simp
qed

text \<open>
  Claim C2. When \<open>start_all\<close> returns (from the empty registry, with no file open, as
  \<open>main\<close> calls it), then for every configuration, also one that repeats a name: the
  trace is, name after name in configuration order, an \<open>open\<close> in mode \<open>ab\<close> of
  \<open><OUTPUT_DIR>/<iface>.stderr.log\<close> that returns a fresh file object, the \<open>Popen\<close> of
  \<open>build_cmd\<close>'s command with standard output to DEVNULL and standard error to that
  file object, and the log line, and nothing else (no \<open>terminate\<close>, no \<open>close\<close>: the
  code keeps no state field, a RUNNING unit is one that was spawned and not stopped);
  the keys of the registry are the configured names; every configured name is mapped
  to a handle that was spawned in this way and to its sink, which is open; and the
  open files are exactly the sinks of the registry, one per unit. When the names are
  pairwise distinct the registry also lists them in configuration order, with the
  handles and the sinks in the order in which they were made.
\<close>

theorem start_all_registers_units:
  assumes "start_all E C w = (Ret (), w')"
    and "processes w = []"
    and "open_files w = []"
  shows "events_since w w' = start_events E C (next_pid w) (next_fd w) (INTERFACES C) \<and>
         terminate_calls (events_since w w') = [] \<and>
         close_calls (events_since w w') = [] \<and>
         set (map fst (processes w')) = set (INTERFACES C) \<and>
         distinct (map fst (processes w')) \<and>
         (\<forall>iface \<in> set (INTERFACES C). \<exists>p f.
            map_of (processes w') iface = Some (p, f) \<and>
            EOpen (joinpath E (OUTPUT_DIR C) (iface @ ''.stderr.log'')) ''ab'' (Some f)
              \<in> set (events_since w w') \<and>
            EPopen (build_cmd E C iface (OUTPUT_DIR C)) DEVNULL (ToFile f) (Some p)
              \<in> set (events_since w w') \<and>
            f \<in> set (open_files w')) \<and>
         set (open_files w') = set (map unit_sink (processes w')) \<and>
         distinct (open_files w') \<and>
         distinct (map unit_sink (processes w')) \<and>
         length (open_files w') = length (processes w') \<and>
         (distinct (INTERFACES C) \<longrightarrow>
            map fst (processes w') = INTERFACES C \<and>
            spawned (events_since w w') = map unit_handle (processes w') \<and>
            opened (events_since w w') = map unit_sink (processes w') \<and>
            open_files w' = map unit_sink (processes w'))"
proof -
  let ?ifs = "INTERFACES C"
  let ?ps = "[next_pid w ..< next_pid w + length ?ifs]"
  let ?fs = "[next_fd w ..< next_fd w + length ?ifs]"
  note R = start_all_Ret [OF assms(1)]
  note T = tidy_start_all [OF assms]
  have reg: "processes w' = start_registry (next_pid w) (next_fd w) ?ifs []"
    using R(1) assms(2) by simp
  have c1: "events_since w w' = start_events E C (next_pid w) (next_fd w) ?ifs"
    by (rule R(2))
  have c2: "terminate_calls (events_since w w') = []"
    and c3: "close_calls (events_since w w') = []"
    unfolding R(2) by (simp_all add: start_events_quiet)
  have c4: "set (map fst (processes w')) = set ?ifs"
    unfolding reg by (simp add: start_registry_keys)
  have c5: "distinct (map fst (processes w'))"
    unfolding reg by (rule start_registry_distinct) simp
  have each: "\<exists>p f. map_of (processes w') iface = Some (p, f) \<and>
            EOpen (joinpath E (OUTPUT_DIR C) (iface @ ''.stderr.log'')) ''ab'' (Some f)
              \<in> set (events_since w w') \<and>
            EPopen (build_cmd E C iface (OUTPUT_DIR C)) DEVNULL (ToFile f) (Some p)
              \<in> set (events_since w w') \<and>
            f \<in> set (open_files w')"
    if member: "iface \<in> set ?ifs" for iface
  proof -
    obtain k where k: "k < length ?ifs" "?ifs ! k = iface" "iface \<notin> set (drop (Suc k) ?ifs)"
      using last_occurrence [OF member] by blast
    have m: "map_of (processes w') iface = Some (next_pid w + k, next_fd w + k)"
      using start_registry_last [of k ?ifs "next_pid w" "next_fd w" "[]"] k reg by simp
    have "next_fd w + k \<in> set (map unit_sink (processes w'))"
      using m by (rule registry_sink_member)
    then have o: "next_fd w + k \<in> set (open_files w')"
      unfolding T(1) .
    show ?thesis
      using start_events_nth [OF k(1), of E C "next_fd w" "next_pid w"] k(2) R(2) m o by auto
  qed
  then have c6: "\<forall>iface \<in> set ?ifs. \<exists>p f.
            map_of (processes w') iface = Some (p, f) \<and>
            EOpen (joinpath E (OUTPUT_DIR C) (iface @ ''.stderr.log'')) ''ab'' (Some f)
              \<in> set (events_since w w') \<and>
            EPopen (build_cmd E C iface (OUTPUT_DIR C)) DEVNULL (ToFile f) (Some p)
              \<in> set (events_since w w') \<and>
            f \<in> set (open_files w')"
    by (rule ballI)
  have c7: "distinct ?ifs \<longrightarrow>
            map fst (processes w') = ?ifs \<and>
            spawned (events_since w w') = map unit_handle (processes w') \<and>
            opened (events_since w w') = map unit_sink (processes w') \<and>
            open_files w' = map unit_sink (processes w')"
  proof
    assume d: "distinct ?ifs"
    have z: "processes w' = zip ?ifs (zip ?ps ?fs)"
      using reg start_registry_distinct_names [of ?ifs "[]" "next_pid w" "next_fd w"] d
      by simp
    have len: "length ?ps = length ?ifs" "length ?fs = length ?ifs"
      by simp_all
    note M = map_unit_zip [OF len]
    have "open_files w' = open_files w @ ?fs"
      using start_units_fresh_names [OF assms(1) [unfolded start_all_def] d] assms(2) by simp
    then have of: "open_files w' = ?fs"
      using assms(3) by simp
    show "map fst (processes w') = ?ifs \<and>
            spawned (events_since w w') = map unit_handle (processes w') \<and>
            opened (events_since w w') = map unit_sink (processes w') \<and>
            open_files w' = map unit_sink (processes w')"
      by (simp add: z M of R(2) start_events_spawned start_events_opened)
  qed
  show ?thesis
    using c1 c2 c3 c4 c5 c6 T c7 by (intro conjI) assumption+
qed

theorem start_all_registers_units_witness:
  "start_all env_ok cfg_two (initial_world None)
     = (Ret (), snd (start_all env_ok cfg_two (initial_world None))) \<and>
   start_all env_ok cfg_dup (initial_world None)
     = (Ret (), snd (start_all env_ok cfg_dup (initial_world None))) \<and>
   processes (initial_world None) = [] \<and>
   open_files (initial_world None) = [] \<and>
   distinct (INTERFACES cfg_two) \<and>
   ''eth1'' \<in> set (INTERFACES cfg_two) \<and>
   map fst (processes (snd (start_all env_ok cfg_two (initial_world None)))) = [''eth0'', ''eth1''] \<and>
   open_files (snd (start_all env_ok cfg_two (initial_world None)))
     = map unit_sink (processes (snd (start_all env_ok cfg_two (initial_world None)))) \<and>
   (\<exists>p f. map_of (processes (snd (start_all env_ok cfg_two (initial_world None)))) ''eth1''
             = Some (p, f) \<and>
          f \<in> set (open_files (snd (start_all env_ok cfg_two (initial_world None))))) \<and>
   INTERFACES cfg_dup = [''eth0'', ''eth0''] \<and>
   length (open_files (snd (start_all env_ok cfg_dup (initial_world None))))
     = length (processes (snd (start_all env_ok cfg_dup (initial_world None)))) \<and>
   processes (snd (start_all env_ok cfg_dup (initial_world None))) = [(''eth0'', 1, 1)]"
proof -
  let ?w = "initial_world None"
  let ?w2 = "snd (start_all env_ok cfg_two ?w)"
  let ?wd = "snd (start_all env_ok cfg_dup ?w)"
  have "fst (start_all env_ok cfg_two ?w) = Ret ()"
    by code_simp
  then have h1: "start_all env_ok cfg_two ?w = (Ret (), ?w2)"
    by (rule fst_snd_pair)
  have "fst (start_all env_ok cfg_dup ?w) = Ret ()"
    by code_simp
  then have g1: "start_all env_ok cfg_dup ?w = (Ret (), ?wd)"
    by (rule fst_snd_pair)
  have h2: "processes ?w = []" and h3: "open_files ?w = []"
    by (simp_all add: initial_world_def)
  have i: "INTERFACES cfg_two = [''eth0'', ''eth1'']"
    by (simp add: cfg_two_def)
  have h4: "distinct (INTERFACES cfg_two)" and h5: "''eth1'' \<in> set (INTERFACES cfg_two)"
    by (simp_all add: i)
  have j: "INTERFACES cfg_dup = [''eth0'', ''eth0'']"
    by code_simp
  note T = start_all_registers_units [OF h1 h2 h3]
  note D = start_all_registers_units [OF g1 h2 h3]
  have "map fst (processes ?w2) = INTERFACES cfg_two \<and>
        spawned (events_since ?w ?w2) = map unit_handle (processes ?w2) \<and>
        opened (events_since ?w ?w2) = map unit_sink (processes ?w2) \<and>
        open_files ?w2 = map unit_sink (processes ?w2)"
    using T h4 by blast
  then have t1: "map fst (processes ?w2) = [''eth0'', ''eth1'']"
    and t2: "open_files ?w2 = map unit_sink (processes ?w2)"
    unfolding i by blast+
  have "\<exists>p f. map_of (processes ?w2) ''eth1'' = Some (p, f) \<and>
            EOpen (joinpath env_ok (OUTPUT_DIR cfg_two) (''eth1'' @ ''.stderr.log'')) ''ab'' (Some f)
              \<in> set (events_since ?w ?w2) \<and>
            EPopen (build_cmd env_ok cfg_two ''eth1'' (OUTPUT_DIR cfg_two)) DEVNULL (ToFile f) (Some p)
              \<in> set (events_since ?w ?w2) \<and>
            f \<in> set (open_files ?w2)"
    using T h5 by blast
  then have t3: "\<exists>p f. map_of (processes ?w2) ''eth1'' = Some (p, f) \<and> f \<in> set (open_files ?w2)"
    by blast
  have d1: "length (open_files ?wd) = length (processes ?wd)"
    using D by (elim conjE)
  have d2: "processes ?wd = [(''eth0'', 1, 1)]"
    by code_simp
  show ?thesis
    using h1 g1 h2 h3 h4 h5 t1 t2 t3 j d1 d2 by (intro conjI)
qed

text \<open>
  Claim C10. When \<open>start_all\<close> returns (from the empty registry, with no file open),
  it has spawned one child and opened one sink per occurrence of a name, the
  occurrence number \<open>k\<close> getting the \<open>k\<close>-th fresh handle and file object. The registry
  maps a name to the handle and sink of its last occurrence. The handle and sink of
  an occurrence that is followed by another occurrence of the same name are in no
  entry of the registry (and that sink, which nothing refers to any more, is no
  longer open). When a name occurs more than once, the registry has fewer entries
  than children were spawned.
\<close>

theorem start_all_duplicate_names:
  assumes "start_all E C w = (Ret (), w')"
    and "processes w = []"
    and "open_files w = []"
  shows "spawned (events_since w w') = [next_pid w ..< next_pid w + length (INTERFACES C)] \<and>
         opened (events_since w w') = [next_fd w ..< next_fd w + length (INTERFACES C)] \<and>
         (\<forall>k < length (INTERFACES C).
            EOpen (joinpath E (OUTPUT_DIR C) (INTERFACES C ! k @ ''.stderr.log'')) ''ab''
                (Some (next_fd w + k)) \<in> set (events_since w w') \<and>
            EPopen (build_cmd E C (INTERFACES C ! k) (OUTPUT_DIR C)) DEVNULL
                (ToFile (next_fd w + k)) (Some (next_pid w + k)) \<in> set (events_since w w')) \<and>
         (\<forall>k < length (INTERFACES C).
            INTERFACES C ! k \<notin> set (drop (Suc k) (INTERFACES C)) \<longrightarrow>
            map_of (processes w') (INTERFACES C ! k) = Some (next_pid w + k, next_fd w + k)) \<and>
         (\<forall>k < length (INTERFACES C).
            INTERFACES C ! k \<in> set (drop (Suc k) (INTERFACES C)) \<longrightarrow>
            next_pid w + k \<notin> set (map unit_handle (processes w')) \<and>
            next_fd w + k \<notin> set (map unit_sink (processes w')) \<and>
            next_fd w + k \<notin> set (open_files w')) \<and>
         (\<not> distinct (INTERFACES C) \<longrightarrow>
            length (processes w') < length (spawned (events_since w w')))"
proof -
  let ?ifs = "INTERFACES C"
  let ?np = "next_pid w"
  let ?nf = "next_fd w"
  note R = start_all_Ret [OF assms(1)]
  note T = tidy_start_all [OF assms]
  have reg: "processes w' = start_registry ?np ?nf ?ifs []"
    using R(1) assms(2) by simp
  have keys: "fst ` set (processes w') = set ?ifs"
    unfolding reg by (simp add: start_registry_keys)
  have dist: "distinct (map fst (processes w'))"
    unfolding reg by (rule start_registry_distinct) simp
  have sp: "spawned (events_since w w') = [?np ..< ?np + length ?ifs]"
    and op: "opened (events_since w w') = [?nf ..< ?nf + length ?ifs]"
    by (simp_all add: R(2) start_events_spawned start_events_opened)
  have c4: "\<forall>k < length ?ifs.
            EOpen (joinpath E (OUTPUT_DIR C) (?ifs ! k @ ''.stderr.log'')) ''ab''
                (Some (?nf + k)) \<in> set (events_since w w') \<and>
            EPopen (build_cmd E C (?ifs ! k) (OUTPUT_DIR C)) DEVNULL
                (ToFile (?nf + k)) (Some (?np + k)) \<in> set (events_since w w')"
  proof (intro allI impI)
    fix k
    assume "k < length ?ifs"
    then show "EOpen (joinpath E (OUTPUT_DIR C) (?ifs ! k @ ''.stderr.log'')) ''ab''
                (Some (?nf + k)) \<in> set (events_since w w') \<and>
            EPopen (build_cmd E C (?ifs ! k) (OUTPUT_DIR C)) DEVNULL
                (ToFile (?nf + k)) (Some (?np + k)) \<in> set (events_since w w')"
      unfolding R(2) by (rule start_events_nth)
  qed
  have last_wins: "map_of (processes w') (?ifs ! k) = Some (?np + k, ?nf + k)"
    if "k < length ?ifs" "?ifs ! k \<notin> set (drop (Suc k) ?ifs)" for k
    unfolding reg using that by (rule start_registry_last)
  have c5: "\<forall>k < length ?ifs.
            ?ifs ! k \<notin> set (drop (Suc k) ?ifs) \<longrightarrow>
            map_of (processes w') (?ifs ! k) = Some (?np + k, ?nf + k)"
    using last_wins by blast
  have entry: "\<exists>j < length ?ifs. ?ifs ! j \<notin> set (drop (Suc j) ?ifs) \<and> x = ?ifs ! j \<and>
                 v = (?np + j, ?nf + j)"
    if mem: "(x, v) \<in> set (processes w')" for x v
  proof -
    have "x \<in> fst ` set (processes w')"
      using mem by (rule image_eqI [where x = "(x, v)", rotated]) simp
    then have "x \<in> set ?ifs"
      unfolding keys .
    then obtain j where j: "j < length ?ifs" "?ifs ! j = x" "x \<notin> set (drop (Suc j) ?ifs)"
      using last_occurrence [of x ?ifs] by blast
    have "map_of (processes w') x = Some v"
      using dist mem by (rule registry_value_unique)
    moreover have "map_of (processes w') x = Some (?np + j, ?nf + j)"
      using last_wins [of j] j by simp
    ultimately have "v = (?np + j, ?nf + j)"
      by simp
    then show ?thesis
      using j by blast
  qed
  have c6: "\<forall>k < length ?ifs.
            ?ifs ! k \<in> set (drop (Suc k) ?ifs) \<longrightarrow>
            ?np + k \<notin> set (map unit_handle (processes w')) \<and>
            ?nf + k \<notin> set (map unit_sink (processes w')) \<and>
            ?nf + k \<notin> set (open_files w')"
  proof (intro allI impI)
    fix k
    assume k: "k < length ?ifs" "?ifs ! k \<in> set (drop (Suc k) ?ifs)"
    have a: "?np + k \<notin> set (map unit_handle (processes w'))"
    proof
      assume "?np + k \<in> set (map unit_handle (processes w'))"
      then obtain u where u: "u \<in> set (processes w')" "unit_handle u = ?np + k"
        by auto
      obtain x p f where "u = (x, p, f)"
        by (cases u) auto
      then have "(x, ?np + k, f) \<in> set (processes w')"
        using u by simp
      from entry [OF this] obtain j where
        "?ifs ! j \<notin> set (drop (Suc j) ?ifs)" "(?np + k, f) = (?np + j, ?nf + j)"
        by blast
      then show False
        using k(2) by simp
    qed
    have b: "?nf + k \<notin> set (map unit_sink (processes w'))"
    proof
      assume "?nf + k \<in> set (map unit_sink (processes w'))"
      then obtain u where u: "u \<in> set (processes w')" "unit_sink u = ?nf + k"
        by auto
      obtain x p f where "u = (x, p, f)"
        by (cases u) auto
      then have "(x, p, ?nf + k) \<in> set (processes w')"
        using u by simp
      from entry [OF this] obtain j where
        "?ifs ! j \<notin> set (drop (Suc j) ?ifs)" "(p, ?nf + k) = (?np + j, ?nf + j)"
        by blast
      then show False
        using k(2) by simp
    qed
    have c: "?nf + k \<notin> set (open_files w')"
      using b unfolding T(1) .
    show "?np + k \<notin> set (map unit_handle (processes w')) \<and>
            ?nf + k \<notin> set (map unit_sink (processes w')) \<and>
            ?nf + k \<notin> set (open_files w')"
      using a b c by (intro conjI)
  qed
  have c7: "\<not> distinct ?ifs \<longrightarrow> length (processes w') < length (spawned (events_since w w'))"
  proof
    assume nd: "\<not> distinct ?ifs"
    have "length (processes w') = length (map fst (processes w'))"
      by simp
    also have "\<dots> = card (set (map fst (processes w')))"
      using dist by (simp only: distinct_card)
    also have "\<dots> = card (set ?ifs)"
      using keys by simp
    finally have l: "length (processes w') = card (set ?ifs)" .
    have "card (set ?ifs) \<le> length ?ifs"
      by (rule card_length)
    moreover have "card (set ?ifs) \<noteq> length ?ifs"
      using nd card_distinct by blast
    ultimately have "card (set ?ifs) < length ?ifs"
      by simp
    then show "length (processes w') < length (spawned (events_since w w'))"
      by (simp add: l sp)
  qed
  show ?thesis
    using sp op c4 c5 c6 c7 by (intro conjI) assumption+
qed

theorem start_all_duplicate_names_witness:
  "start_all env_ok cfg_dup (initial_world None)
     = (Ret (), snd (start_all env_ok cfg_dup (initial_world None))) \<and>
   processes (initial_world None) = [] \<and>
   open_files (initial_world None) = [] \<and>
   \<not> distinct (INTERFACES cfg_dup) \<and>
   INTERFACES cfg_dup ! 0 \<in> set (drop (Suc 0) (INTERFACES cfg_dup)) \<and>
   INTERFACES cfg_dup ! 1 \<notin> set (drop (Suc 1) (INTERFACES cfg_dup)) \<and>
   spawned (events_since (initial_world None) (snd (start_all env_ok cfg_dup (initial_world None))))
     = [0, 1] \<and>
   length (processes (snd (start_all env_ok cfg_dup (initial_world None))))
     < length (spawned (events_since (initial_world None)
         (snd (start_all env_ok cfg_dup (initial_world None))))) \<and>
   map_of (processes (snd (start_all env_ok cfg_dup (initial_world None)))) ''eth0'' = Some (1, 1) \<and>
   0 \<notin> set (map unit_handle (processes (snd (start_all env_ok cfg_dup (initial_world None))))) \<and>
   0 \<notin> set (map unit_sink (processes (snd (start_all env_ok cfg_dup (initial_world None))))) \<and>
   0 \<notin> set (open_files (snd (start_all env_ok cfg_dup (initial_world None))))"
proof -
  let ?w = "initial_world None"
  let ?w' = "snd (start_all env_ok cfg_dup ?w)"
  have "fst (start_all env_ok cfg_dup ?w) = Ret ()"
    by code_simp
  then have h1: "start_all env_ok cfg_dup ?w = (Ret (), ?w')"
    by (rule fst_snd_pair)
  have h2: "processes ?w = []" and h3: "open_files ?w = []"
    and n: "next_pid ?w = 0" "next_fd ?w = 0"
    by (simp_all add: initial_world_def)
  have i: "INTERFACES cfg_dup = [''eth0'', ''eth0'']"
    by code_simp
  have nd: "\<not> distinct (INTERFACES cfg_dup)"
    and later: "INTERFACES cfg_dup ! 0 \<in> set (drop (Suc 0) (INTERFACES cfg_dup))"
    and len: "(0::nat) < length (INTERFACES cfg_dup)"
    and last: "INTERFACES cfg_dup ! 1 \<notin> set (drop (Suc 1) (INTERFACES cfg_dup))"
    and len1: "(1::nat) < length (INTERFACES cfg_dup)"
    and i1: "INTERFACES cfg_dup ! 1 = ''eth0''"
    by (simp_all add: i)
  note T = start_all_duplicate_names [OF h1 h2 h3]
  have sp: "spawned (events_since ?w ?w') = [0, 1]"
    using T by (simp add: n i)
  have fewer: "length (processes ?w') < length (spawned (events_since ?w ?w'))"
    using T nd by blast
  have "map_of (processes ?w') (INTERFACES cfg_dup ! 1) = Some (next_pid ?w + 1, next_fd ?w + 1)"
    using T last len1 by blast
  then have kept: "map_of (processes ?w') ''eth0'' = Some (1, 1)"
    unfolding i1 n by simp
  have "next_pid ?w + 0 \<notin> set (map unit_handle (processes ?w')) \<and>
        next_fd ?w + 0 \<notin> set (map unit_sink (processes ?w')) \<and>
        next_fd ?w + 0 \<notin> set (open_files ?w')"
    using T later len by blast
  then have gone: "0 \<notin> set (map unit_handle (processes ?w'))"
    "0 \<notin> set (map unit_sink (processes ?w'))" "0 \<notin> set (open_files ?w')"
    by (simp_all add: n)
  show ?thesis
    using h1 h2 h3 nd later last sp fewer kept gone by (intro conjI)
qed

section \<open>The monitoring loop\<close>

lemma quiet_cases:
  assumes "quiet w 8"
  obtains "signal_at w = None"
  | t s where "signal_at w = Some (t, s)"
      "\<not> t \<le> tick w"
      "\<not> t \<le> Suc (tick w)"
      "\<not> t \<le> Suc (Suc (tick w))"
      "\<not> t \<le> Suc (Suc (Suc (tick w)))"
      "\<not> t \<le> Suc (Suc (Suc (Suc (tick w))))"
      "\<not> t \<le> Suc (Suc (Suc (Suc (Suc (tick w)))))"
      "\<not> t \<le> Suc (Suc (Suc (Suc (Suc (Suc (tick w))))))"
      "\<not> t \<le> Suc (Suc (Suc (Suc (Suc (Suc (Suc (tick w)))))))"
proof (cases "signal_at w")
  case None
  then show ?thesis using that by simp
next
  case (Some ts)
  obtain t s where ts: "ts = (t, s)" by (cases ts) auto
  have "tick w + 8 \<le> t"
    using assms Some ts by (simp add: quiet_def)
  then show ?thesis
    using that(2) [of t s] Some ts by auto
qed

lemma tick_plus:
  "n + 2 = Suc (Suc n)" "n + 4 = Suc (Suc (Suc (Suc n)))" "n + 5 = Suc (Suc (Suc (Suc (Suc n))))"
  by simp_all

lemmas restart_defs = monitor_unit_def restart_unit_def intr_def due_def prim_defs comb_defs
  events_since_def tick_plus

lemma restart_prefix:
  assumes "poll_at E (tick w) p = Some code" and "quiet w 8"
  shows "take 5 (events_since w (snd (monitor_unit E C (iface, p, f) w))) =
           [EPoll p (Some code), EPrint (MsgExited iface code),
            EClose f (\<not> close_fails E (tick w + 2) f), ESleep 2,
            EOpen (joinpath E (OUTPUT_DIR C) (iface @ ''.stderr.log'')) ''ab''
              (if open_fails E (tick w + 4) (joinpath E (OUTPUT_DIR C) (iface @ ''.stderr.log''))
               then None else Some (next_fd w))]"
  using assms(2)
proof (cases rule: quiet_cases)
  case 1
  then show ?thesis
    using assms(1) by (simp add: restart_defs)
next
  case (2 t s)
  then show ?thesis
    using assms(1) by (simp add: restart_defs)
qed

lemma restart_success:
  assumes "poll_at E (tick w) p = Some code" and "quiet w 8"
   and "\<not> open_fails E (tick w + 4) (joinpath E (OUTPUT_DIR C) (iface @ ''.stderr.log''))"
   and "\<not> popen_fails E (tick w + 5) (build_cmd E C iface (OUTPUT_DIR C))"
  shows "fst (monitor_unit E C (iface, p, f) w) = Ret () \<and>
    events_since w (snd (monitor_unit E C (iface, p, f) w)) =
           [EPoll p (Some code), EPrint (MsgExited iface code),
            EClose f (\<not> close_fails E (tick w + 2) f), ESleep 2,
            EOpen (joinpath E (OUTPUT_DIR C) (iface @ ''.stderr.log'')) ''ab'' (Some (next_fd w)),
            EPopen (build_cmd E C iface (OUTPUT_DIR C)) DEVNULL (ToFile (next_fd w)) (Some (next_pid w)),
            EPrint (MsgRestarted iface (next_pid w))] \<and>
    processes (snd (monitor_unit E C (iface, p, f) w)) = AList.update iface (next_pid w, next_fd w) (processes w) \<and>
    clock (snd (monitor_unit E C (iface, p, f) w)) = clock w + 2 \<and>
    open_files (snd (monitor_unit E C (iface, p, f) w)) =
      (case map_of (processes w) iface of
         None \<Rightarrow> removeAll f (open_files w) @ [next_fd w]
       | Some old \<Rightarrow>
           release (snd old) (AList.update iface (next_pid w, next_fd w) (processes w))
             (removeAll f (open_files w) @ [next_fd w]))"
  using assms(2)
proof (cases rule: quiet_cases)
  case 1
  then show ?thesis
    using assms(1,3,4) by (simp add: restart_defs cong: option.case_cong)
next
  case (2 t s)
  then show ?thesis
    using assms(1,3,4) by (simp add: restart_defs cong: option.case_cong)
qed

lemma update_holds_sink: "nf \<in> set (map unit_sink (AList.update k (np, nf) r))"
proof -
  have "map_of (AList.update k (np, nf) r) k = Some (np, nf)"
    by (simp add: AList.update_conv')
  then show ?thesis
    by (rule registry_sink_member)
qed

lemma release_closed_sink:
  "release f (AList.update k (np, nf) r) (removeAll f files @ [nf]) = removeAll f files @ [nf]"
proof (cases "f \<in> set (map unit_sink (AList.update k (np, nf) r))")
  case True
  then show ?thesis
    by (simp add: release_sinks)
next
  case False
  then have "f \<noteq> nf"
    using update_holds_sink [of nf k np r] by auto
  then show ?thesis
    using False by (simp add: release_sinks)
qed

lemma restart_open_files:
  assumes "poll_at E (tick w) p = Some code" and "quiet w 8"
   and "\<not> open_fails E (tick w + 4) (joinpath E (OUTPUT_DIR C) (iface @ ''.stderr.log''))"
   and "\<not> popen_fails E (tick w + 5) (build_cmd E C iface (OUTPUT_DIR C))"
   and "map_of (processes w) iface = Some (p, f)"
  shows "open_files (snd (monitor_unit E C (iface, p, f) w)) = removeAll f (open_files w) @ [next_fd w]"
  using restart_success [OF assms(1-4)] assms(5) by (simp add: release_closed_sink)

lemma preservesD: "preserves P m \<Longrightarrow> P w \<Longrightarrow> P (snd (m w))"
  by (simp add: preserves_def)

lemma preserves_ret: "preserves P (ret x)"
  by (simp add: preserves_def ret_def)

lemma preserves_bnd:
  assumes "preserves P m" and "\<And>x. preserves P (f x)"
  shows "preserves P (bnd m f)"
proof (unfold preserves_def, intro allI impI)
  fix w
  assume "P w"
  then have 1: "P (snd (m w))"
    using assms(1) by (simp add: preserves_def)
  show "P (snd (bnd m f w))"
  proof (cases "m w")
    case (Pair r w1)
    then show ?thesis
      using 1 assms(2) by (cases r) (simp_all add: bnd_def preserves_def)
  qed
qed

lemma preserves_try_except:
  assumes "preserves P m" and "\<And>e. preserves P (h e)"
  shows "preserves P (try_except cls m h)"
proof (unfold preserves_def, intro allI impI)
  fix w
  assume "P w"
  then have 1: "P (snd (m w))"
    using assms(1) by (simp add: preserves_def)
  show "P (snd (try_except cls m h w))"
  proof (cases "m w")
    case (Pair r w1)
    then show ?thesis
      using 1 assms(2) by (cases r) (simp_all add: try_except_def preserves_def)
  qed
qed

lemma preserves_intr:
  assumes "preserves P m" and "\<And>w. P w \<Longrightarrow> P (consume w)"
  shows "preserves P (intr m)"
  using assms by (auto simp: preserves_def intr_def split: option.splits)

lemma has_keys_prims:
  "preserves (has_keys K) (py_print m)"
  "preserves (has_keys K) (py_close E f)"
  "preserves (has_keys K) (sleep n)"
  "preserves (has_keys K) (py_open E path mode)"
  "preserves (has_keys K) (popen E cmd out err)"
  "preserves (has_keys K) (poll E p)"
  by (simp_all add: preserves_def has_keys_def prim_defs)

lemma has_keys_set_entry:
  "iface \<in> set K \<Longrightarrow> preserves (has_keys K) (set_entry iface v)"
  by (auto simp: preserves_def has_keys_def prim_defs AList.update_keys)

lemma has_keys_signal: "has_keys K w \<Longrightarrow> has_keys K (consume w)"
  by (simp add: has_keys_def consume_def)

lemma has_keys_restart_unit:
  assumes "iface \<in> set K"
  shows "preserves (has_keys K) (restart_unit E C iface f r)"
  unfolding restart_unit_def
  by (intro preserves_bnd preserves_intr preserves_try_except preserves_ret has_keys_prims
      has_keys_set_entry has_keys_signal assms)

lemma has_keys_monitor_unit:
  assumes "fst u \<in> set K"
  shows "preserves (has_keys K) (monitor_unit E C u)"
proof -
  obtain iface p f where u: "u = (iface, p, f)"
    by (cases u) auto
  have "preserves (has_keys K)
          (case r of None \<Rightarrow> ret () | Some code \<Rightarrow> restart_unit E C iface f code)" for r
    using assms u by (cases r) (simp_all add: preserves_ret has_keys_restart_unit)
  then show ?thesis
    unfolding monitor_unit_def u prod.case
    by (intro preserves_bnd preserves_intr has_keys_prims has_keys_signal)
qed

lemma has_keys_monitor_units:
  "fst ` set us \<subseteq> set K \<Longrightarrow> preserves (has_keys K) (monitor_units E C us)"
  by (induction us) (auto intro!: preserves_ret preserves_bnd has_keys_monitor_unit)

lemma monitor_pass_keys:
  "map fst (processes (snd (monitor_pass E C w))) = map fst (processes w)"
proof -
  have "preserves (has_keys (map fst (processes w))) (monitor_units E C (processes w))"
    by (rule has_keys_monitor_units) simp
  then have "has_keys (map fst (processes w)) (snd (monitor_units E C (processes w) w))"
    by (rule preservesD) (simp add: has_keys_def)
  then show ?thesis
    by (simp add: has_keys_def monitor_pass_def)
qed

lemma loop_iteration_keys:
  "map fst (processes (snd (loop_iteration E C w))) = map fst (processes w)"
proof -
  have "preserves (has_keys K) (monitor_pass E C)" for K
    unfolding preserves_def has_keys_def using monitor_pass_keys by simp
  then have "preserves (has_keys (map fst (processes w))) (loop_iteration E C)"
    unfolding loop_iteration_def
    by (intro preserves_bnd preserves_intr has_keys_prims has_keys_signal)
  then have "has_keys (map fst (processes w)) (snd (loop_iteration E C w))"
    by (rule preservesD) (simp add: has_keys_def)
  then show ?thesis
    by (simp add: has_keys_def)
qed

lemma monitor_loop_keys:
  "monitor_loop n E C w = Some (r, w') \<Longrightarrow> map fst (processes w') = map fst (processes w)"
proof (induction n arbitrary: w)
  case 0
  then show ?case by simp
next
  case (Suc n)
  obtain r1 w1 where it: "loop_iteration E C w = (r1, w1)"
    by (cases "loop_iteration E C w") auto
  have k1: "map fst (processes w1) = map fst (processes w)"
    using loop_iteration_keys [of E C w] it by simp
  show ?case
  proof (cases r1)
    case (Ret x)
    then have "monitor_loop n E C w1 = Some (r, w')"
      using Suc.prems it by simp
    then show ?thesis
      using Suc.IH k1 by simp
  qed (use Suc.prems it k1 in auto)
qed

text \<open>
  Claim C1, as amended. Whenever \<open>poll\<close> finds the child of a unit exited and no
  signal is delivered during the restart (the supervisor is running, not shutting
  down), in any world and so after any number of earlier restarts, the supervisor
  logs the exit code, closes the unit's sink, sleeps exactly 2, and opens
  \<open><OUTPUT_DIR>/<iface>.stderr.log\<close> in mode \<open>ab\<close>. When that \<open>open\<close> and the
  \<open>Popen\<close> after it succeed, the whole sequence is: poll, log line, close, sleep 2,
  open, \<open>Popen\<close> of \<open>build_cmd\<close>'s command with standard output to DEVNULL and
  standard error to the new sink, log line; the registry entry of the name is
  overwritten with the new handle and sink; the only time spent is the backoff of 2;
  the unit's monitoring returns normally, so the loop goes on; and, the unit being the
  registry's entry of its name, the old sink is no longer open and the new one is.
\<close>

theorem restart_on_exit:
  assumes "poll_at E (tick w) p = Some code"
    and "quiet w 8"
  shows "take 5 (events_since w (snd (monitor_unit E C (iface, p, f) w))) =
           [EPoll p (Some code), EPrint (MsgExited iface code),
            EClose f (\<not> close_fails E (tick w + 2) f), ESleep 2,
            EOpen (joinpath E (OUTPUT_DIR C) (iface @ ''.stderr.log'')) ''ab''
              (if open_fails E (tick w + 4) (joinpath E (OUTPUT_DIR C) (iface @ ''.stderr.log''))
               then None else Some (next_fd w))] \<and>
         (\<not> open_fails E (tick w + 4) (joinpath E (OUTPUT_DIR C) (iface @ ''.stderr.log'')) \<and>
          \<not> popen_fails E (tick w + 5) (build_cmd E C iface (OUTPUT_DIR C)) \<longrightarrow>
            fst (monitor_unit E C (iface, p, f) w) = Ret () \<and>
            events_since w (snd (monitor_unit E C (iface, p, f) w)) =
              [EPoll p (Some code), EPrint (MsgExited iface code),
               EClose f (\<not> close_fails E (tick w + 2) f), ESleep 2,
               EOpen (joinpath E (OUTPUT_DIR C) (iface @ ''.stderr.log'')) ''ab''
                 (Some (next_fd w)),
               EPopen (build_cmd E C iface (OUTPUT_DIR C)) DEVNULL (ToFile (next_fd w))
                 (Some (next_pid w)),
               EPrint (MsgRestarted iface (next_pid w))] \<and>
            processes (snd (monitor_unit E C (iface, p, f) w))
              = AList.update iface (next_pid w, next_fd w) (processes w) \<and>
            clock (snd (monitor_unit E C (iface, p, f) w)) = clock w + 2 \<and>
            (map_of (processes w) iface = Some (p, f) \<longrightarrow>
               open_files (snd (monitor_unit E C (iface, p, f) w))
                 = removeAll f (open_files w) @ [next_fd w]))"
  using restart_prefix [OF assms] restart_success [OF assms] restart_open_files [OF assms]
  by blast

theorem restart_on_exit_witness:
  "poll_at env_exit (tick world_two) 1 = Some 1 \<and>
   quiet world_two 8 \<and>
   map_of (processes world_two) ''eth1'' = Some (1, 1) \<and>
   fst (monitor_unit env_exit cfg_two (''eth1'', 1, 1) world_two) = Ret () \<and>
   events_since world_two (snd (monitor_unit env_exit cfg_two (''eth1'', 1, 1) world_two)) =
     [EPoll 1 (Some 1), EPrint (MsgExited ''eth1'' 1), EClose 1 True, ESleep 2,
      EOpen ''/var/log/tcpdump/eth1.stderr.log'' ''ab'' (Some 2),
      EPopen [''/usr/bin/tcpdump'', ''-i'', ''eth1'', ''-s'', ''0'', ''-w'',
              ''/var/log/tcpdump/eth1.pcap'', ''-C'', ''100'', ''-W'', ''5'', ''-n'', ''-v'']
        DEVNULL (ToFile 2) (Some 2),
      EPrint (MsgRestarted ''eth1'' 2)] \<and>
   processes (snd (monitor_unit env_exit cfg_two (''eth1'', 1, 1) world_two))
     = [(''eth0'', 0, 0), (''eth1'', 2, 2)] \<and>
   clock (snd (monitor_unit env_exit cfg_two (''eth1'', 1, 1) world_two)) = 2 \<and>
   open_files (snd (monitor_unit env_exit cfg_two (''eth1'', 1, 1) world_two)) = [0, 2]"
proof -
  have h1: "poll_at env_exit (tick world_two) 1 = Some 1"
    by (simp add: env_exit_def)
  have h2: "quiet world_two 8"
    by (simp add: quiet_def world_two_def)
  have h3: "\<not> open_fails env_exit (tick world_two + 4)
              (joinpath env_exit (OUTPUT_DIR cfg_two) (''eth1'' @ ''.stderr.log''))"
    and h4: "\<not> popen_fails env_exit (tick world_two + 5)
              (build_cmd env_exit cfg_two ''eth1'' (OUTPUT_DIR cfg_two))"
    by (simp_all add: env_exit_def env_ok_def)
  have h5: "map_of (processes world_two) ''eth1'' = Some (1, 1)"
    by (simp add: world_two_def)
  note T = restart_on_exit [OF h1 h2, of cfg_two "''eth1''" 1]
  have r: "fst (monitor_unit env_exit cfg_two (''eth1'', 1, 1) world_two) = Ret ()"
    using T h3 h4 by blast
  have e: "events_since world_two (snd (monitor_unit env_exit cfg_two (''eth1'', 1, 1) world_two)) =
              [EPoll 1 (Some 1), EPrint (MsgExited ''eth1'' 1),
               EClose 1 (\<not> close_fails env_exit (tick world_two + 2) 1), ESleep 2,
               EOpen (joinpath env_exit (OUTPUT_DIR cfg_two) (''eth1'' @ ''.stderr.log'')) ''ab''
                 (Some (next_fd world_two)),
               EPopen (build_cmd env_exit cfg_two ''eth1'' (OUTPUT_DIR cfg_two)) DEVNULL
                 (ToFile (next_fd world_two)) (Some (next_pid world_two)),
               EPrint (MsgRestarted ''eth1'' (next_pid world_two))]"
    using T h3 h4 by blast
  have p: "processes (snd (monitor_unit env_exit cfg_two (''eth1'', 1, 1) world_two))
              = AList.update ''eth1'' (next_pid world_two, next_fd world_two) (processes world_two)"
    using T h3 h4 by blast
  have c: "clock (snd (monitor_unit env_exit cfg_two (''eth1'', 1, 1) world_two))
             = clock world_two + 2"
    using T h3 h4 by blast
  have o: "open_files (snd (monitor_unit env_exit cfg_two (''eth1'', 1, 1) world_two))
             = removeAll 1 (open_files world_two) @ [next_fd world_two]"
    using T h3 h4 h5 by blast
  have v1: "(\<not> close_fails env_exit (tick world_two + 2) 1) = True"
    and v2: "joinpath env_exit (OUTPUT_DIR cfg_two) (''eth1'' @ ''.stderr.log'')
              = ''/var/log/tcpdump/eth1.stderr.log''"
    and v3: "next_fd world_two = 2" "next_pid world_two = 2" "clock world_two = 0"
    and v4: "AList.update ''eth1'' (2, 2) (processes world_two) = [(''eth0'', 0, 0), (''eth1'', 2, 2)]"
    and v6: "removeAll 1 (open_files world_two) @ [2] = [0, 2]"
    by (simp_all add: env_exit_def env_ok_def cfg_two_def world_two_def)
  have v5: "build_cmd env_exit cfg_two ''eth1'' (OUTPUT_DIR cfg_two)
     = [''/usr/bin/tcpdump'', ''-i'', ''eth1'', ''-s'', ''0'', ''-w'',
        ''/var/log/tcpdump/eth1.pcap'', ''-C'', ''100'', ''-W'', ''5'', ''-n'', ''-v'']"
    by code_simp
  show ?thesis
    using h1 h2 h5 r e p c o unfolding v1 v2 v3 v4 v5 v6 by simp
qed

text \<open>
  The claim C1 as stated fails: the replacement is not always spawned and the
  supervisor can terminate. In this run of \<open>main\<close> on two interfaces the child of
  \<open>eth1\<close> is found exited in the first pass; the old sink is closed, the backoff is
  waited and the new sink is opened, but \<open>Popen\<close> raises. Nothing catches the
  OSError (the restart has no \<open>try\<close> around \<open>open\<close> and \<open>Popen\<close>, and \<open>main\<close>
  catches only KeyboardInterrupt): no replacement is spawned, the registry entry is
  not overwritten, and the supervisor ends with exit status 1.
\<close>

theorem respawn_failure_ends_supervisor:
  "map_option fst (main 1 env_no_respawn cfg_two (initial_world None)) = Some (Raise OSError) \<and>
   map_option (exit_status \<circ> fst) (main 1 env_no_respawn cfg_two (initial_world None))
     = Some (Some 1) \<and>
   map_option (drop 8 \<circ> trace \<circ> snd) (main 1 env_no_respawn cfg_two (initial_world None))
     = Some [EPoll 0 None, EPoll 1 (Some 1), EPrint (MsgExited ''eth1'' 1), EClose 1 True,
             ESleep 2, EOpen ''/var/log/tcpdump/eth1.stderr.log'' ''ab'' (Some 2),
             EPopen [''/usr/bin/tcpdump'', ''-i'', ''eth1'', ''-s'', ''0'', ''-w'',
                     ''/var/log/tcpdump/eth1.pcap'', ''-C'', ''100'', ''-W'', ''5'', ''-n'', ''-v'']
               DEVNULL (ToFile 2) None] \<and>
   map_option (spawned \<circ> trace \<circ> snd) (main 1 env_no_respawn cfg_two (initial_world None))
     = Some [0, 1] \<and>
   map_option (processes \<circ> snd) (main 1 env_no_respawn cfg_two (initial_world None))
     = Some [(''eth0'', 0, 0), (''eth1'', 1, 1)]"
  by code_simp

text \<open>
  Claim C5. When \<open>start_all\<close> returns (from the empty registry), the keys of the
  registry are the configured names, each once. A monitoring pass, and a whole
  iteration of the loop, leave the list of keys as it is in every world and whatever
  their outcome (a restart only overwrites the entry of a key of the snapshot); so
  when the loop stops, by a signal or an exception, before \<open>stop_all\<close> has run, the
  keys are still the configured names, each once.
\<close>

theorem registry_keys_invariant:
  assumes "start_all E C w0 = (Ret (), w1)"
    and "processes w0 = []"
  shows "set (map fst (processes w1)) = set (INTERFACES C) \<and>
         distinct (map fst (processes w1)) \<and>
         map fst (processes (snd (monitor_pass E C w))) = map fst (processes w) \<and>
         map fst (processes (snd (loop_iteration E C w))) = map fst (processes w) \<and>
         (monitor_loop n E C w1 = Some (r, w2) \<longrightarrow>
            map fst (processes w2) = map fst (processes w1) \<and>
            set (map fst (processes w2)) = set (INTERFACES C) \<and>
            distinct (map fst (processes w2)))"
proof -
  have reg: "processes w1 = start_registry (next_pid w0) (next_fd w0) (INTERFACES C) []"
    using start_all_Ret(1) [OF assms(1)] assms(2) by simp
  have k: "set (map fst (processes w1)) = set (INTERFACES C)"
    unfolding reg by (simp add: start_registry_keys)
  have d: "distinct (map fst (processes w1))"
    unfolding reg by (rule start_registry_distinct) simp
  have l: "map fst (processes w2) = map fst (processes w1)"
    if "monitor_loop n E C w1 = Some (r, w2)"
    using that by (rule monitor_loop_keys)
  show ?thesis
    using k d l monitor_pass_keys [of E C w] loop_iteration_keys [of E C w] by simp
qed

theorem registry_keys_invariant_witness:
  "start_all env_exit cfg_two world_sigterm
     = (Ret (), snd (start_all env_exit cfg_two world_sigterm)) \<and>
   processes world_sigterm = [] \<and>
   (\<exists>w2. monitor_loop 3 env_exit cfg_two (snd (start_all env_exit cfg_two world_sigterm))
           = Some (Signalled 15, w2) \<and>
         map fst (processes w2) = [''eth0'', ''eth1''] \<and>
         set (map fst (processes w2)) = set (INTERFACES cfg_two))"
proof -
  define w1 where "w1 = snd (start_all env_exit cfg_two world_sigterm)"
  have "fst (start_all env_exit cfg_two world_sigterm) = Ret ()"
    by code_simp
  then have h1: "start_all env_exit cfg_two world_sigterm = (Ret (), w1)"
    unfolding w1_def by (rule fst_snd_pair)
  have h2: "processes world_sigterm = []"
    by (simp add: world_sigterm_def initial_world_def)
  have "map_option fst (monitor_loop 3 env_exit cfg_two
          (snd (start_all env_exit cfg_two world_sigterm))) = Some (Signalled 15)"
    by code_simp
  then have "\<exists>w2. monitor_loop 3 env_exit cfg_two w1 = Some (Signalled 15, w2)"
    unfolding w1_def by (rule map_option_fst_Some)
  then obtain w2 where run: "monitor_loop 3 env_exit cfg_two w1 = Some (Signalled 15, w2)"
    by (rule exE)
  have k1: "map fst (processes (snd (start_all env_exit cfg_two world_sigterm)))
              = [''eth0'', ''eth1'']"
    by code_simp
  note T = registry_keys_invariant [OF h1 h2, of world_sigterm 3 "Signalled 15" w2]
  have "monitor_loop 3 env_exit cfg_two w1 = Some (Signalled 15, w2) \<longrightarrow>
            map fst (processes w2) = map fst (processes w1) \<and>
            set (map fst (processes w2)) = set (INTERFACES cfg_two) \<and>
            distinct (map fst (processes w2))"
    using T by (elim conjE)
  then have both: "map fst (processes w2) = map fst (processes w1) \<and>
            set (map fst (processes w2)) = set (INTERFACES cfg_two) \<and>
            distinct (map fst (processes w2))"
    using run by (rule mp)
  have k0: "map fst (processes w2) = map fst (processes w1)"
    using both by (rule conjunct1)
  have k3: "set (map fst (processes w2)) = set (INTERFACES cfg_two)"
    using both by (elim conjE)
  have k2: "map fst (processes w2) = [''eth0'', ''eth1'']"
    using k0 k1 unfolding w1_def by (rule trans)
  have "monitor_loop 3 env_exit cfg_two w1 = Some (Signalled 15, w2) \<and>
         map fst (processes w2) = [''eth0'', ''eth1''] \<and>
         set (map fst (processes w2)) = set (INTERFACES cfg_two)"
    using run k2 k3 by (intro conjI)
  then have "\<exists>w2. monitor_loop 3 env_exit cfg_two w1 = Some (Signalled 15, w2) \<and>
         map fst (processes w2) = [''eth0'', ''eth1''] \<and>
         set (map fst (processes w2)) = set (INTERFACES cfg_two)"
    by (rule exI)
  then show ?thesis
    using h1 h2 unfolding w1_def by (intro conjI)
qed

lemma monitor_unit_survives:
  assumes "signal_at w = None"
    and "\<forall>t path. \<not> open_fails E t path"
    and "\<forall>t cmd. \<not> popen_fails E t cmd"
  shows "fst (monitor_unit E C (iface, p, f) w) = Ret () \<and>
         signal_at (snd (monitor_unit E C (iface, p, f) w)) = None \<and>
         (\<exists>evs. trace (snd (monitor_unit E C (iface, p, f) w)) = trace w @ evs \<and> polled evs = [p])"
  using assms
  by (simp add: monitor_unit_def restart_unit_def intr_def due_def prim_defs comb_defs
      polled_def split: option.split)

lemma monitor_units_survive:
  assumes "signal_at w = None"
    and "\<forall>t path. \<not> open_fails E t path"
    and "\<forall>t cmd. \<not> popen_fails E t cmd"
  shows "fst (monitor_units E C us w) = Ret () \<and>
         signal_at (snd (monitor_units E C us w)) = None \<and>
         (\<exists>evs. trace (snd (monitor_units E C us w)) = trace w @ evs \<and>
                polled evs = map unit_handle us)"
  using assms(1)
proof (induction us arbitrary: w)
  case Nil
  then show ?case by (simp add: ret_def polled_def)
next
  case (Cons u us)
  obtain iface p f where u: "u = (iface, p, f)"
    by (cases u) auto
  let ?w1 = "snd (monitor_unit E C u w)"
  have U: "fst (monitor_unit E C u w) = Ret ()" "signal_at ?w1 = None"
    and "\<exists>evs. trace ?w1 = trace w @ evs \<and> polled evs = [p]"
    using monitor_unit_survives [OF Cons.prems assms(2,3), of C iface p f] u by simp_all
  then obtain evs1 where e1: "trace ?w1 = trace w @ evs1" "polled evs1 = [p]"
    by blast
  have R: "fst (monitor_units E C us ?w1) = Ret ()"
    "signal_at (snd (monitor_units E C us ?w1)) = None"
    and "\<exists>evs. trace (snd (monitor_units E C us ?w1)) = trace ?w1 @ evs \<and>
                polled evs = map unit_handle us"
    using Cons.IH [OF U(2)] by simp_all
  then obtain evs2 where e2: "trace (snd (monitor_units E C us ?w1)) = trace ?w1 @ evs2"
    "polled evs2 = map unit_handle us"
    by blast
  have step: "monitor_units E C (u # us) w = monitor_units E C us ?w1"
    by (simp add: bnd_Ret [where m = "monitor_unit E C u" and w = w, OF U(1)])
  have "trace (snd (monitor_units E C (u # us) w)) = trace w @ (evs1 @ evs2)"
    using e1(1) e2(1) unfolding step by simp
  moreover have "polled (evs1 @ evs2) = map unit_handle (u # us)"
    using e1(2) e2(2) u by (simp add: polled_def)
  ultimately have "\<exists>evs. trace (snd (monitor_units E C (u # us) w)) = trace w @ evs \<and>
                polled evs = map unit_handle (u # us)"
    by blast
  then show ?case
    using R(1,2) unfolding step by simp
qed

lemma loop_iteration_survives:
  assumes "signal_at w = None"
    and "\<forall>t path. \<not> open_fails E t path"
    and "\<forall>t cmd. \<not> popen_fails E t cmd"
  shows "fst (loop_iteration E C w) = Ret () \<and> signal_at (snd (loop_iteration E C w)) = None"
proof -
  have P: "fst (monitor_pass E C w) = Ret ()" "signal_at (snd (monitor_pass E C w)) = None"
    using monitor_units_survive [OF assms, of C "processes w"] by (simp_all add: monitor_pass_def)
  show ?thesis
    using P(2)
    by (simp add: loop_iteration_def bnd_Ret [where m = "monitor_pass E C" and w = w, OF P(1)]
        intr_def due_def sleep_def emit_def)
qed

lemma monitor_loop_runs_on:
  assumes "signal_at w = None"
    and "\<forall>t path. \<not> open_fails E t path"
    and "\<forall>t cmd. \<not> popen_fails E t cmd"
  shows "monitor_loop n E C w = None"
  using assms(1)
proof (induction n arbitrary: w)
  case 0
  show ?case by simp
next
  case (Suc n)
  note I = loop_iteration_survives [OF Suc.prems assms(2,3), of C]
  obtain r w1 where it: "loop_iteration E C w = (r, w1)"
    by (cases "loop_iteration E C w") auto
  have "r = Ret ()" "signal_at w1 = None"
    using I it by simp_all
  then show ?case
    using Suc.IH [of w1] it by simp
qed

text \<open>
  Claim C8, as amended. When no signal is pending and every \<open>open\<close> and every
  \<open>Popen\<close> succeeds, then whatever \<open>poll\<close> and \<open>close\<close> answer, a monitoring pass
  returns normally having polled every unit of the registry, in order, and the loop
  never stops: it is still running after any number of iterations.
\<close>

theorem monitor_survives_exits:
  assumes "signal_at w = None"
    and "\<forall>t path. \<not> open_fails E t path"
    and "\<forall>t cmd. \<not> popen_fails E t cmd"
  shows "fst (monitor_pass E C w) = Ret () \<and>
         polled (events_since w (snd (monitor_pass E C w))) = map unit_handle (processes w) \<and>
         monitor_loop n E C w = None"
proof -
  note M = monitor_units_survive [OF assms, of C "processes w"]
  obtain evs where e: "trace (snd (monitor_pass E C w)) = trace w @ evs"
    "polled evs = map unit_handle (processes w)"
    using M by (auto simp: monitor_pass_def)
  have "events_since w (snd (monitor_pass E C w)) = evs"
    using e(1) by (rule events_since_append)
  then show ?thesis
    using M e(2) monitor_loop_runs_on [OF assms, of n C] by (simp add: monitor_pass_def)
qed

theorem monitor_survives_exits_witness:
  "signal_at world_two = None \<and>
   poll_at env_exit (tick world_two + 1) 1 = Some 1 \<and>
   close_fails (env_exit\<lparr>close_fails := (\<lambda>t f. True)\<rparr>) (tick world_two + 3) 1 \<and>
   fst (monitor_pass (env_exit\<lparr>close_fails := (\<lambda>t f. True)\<rparr>) cfg_two world_two) = Ret () \<and>
   polled (events_since world_two
      (snd (monitor_pass (env_exit\<lparr>close_fails := (\<lambda>t f. True)\<rparr>) cfg_two world_two))) = [0, 1] \<and>
   monitor_loop 100 (env_exit\<lparr>close_fails := (\<lambda>t f. True)\<rparr>) cfg_two world_two = None"
proof -
  let ?E = "env_exit\<lparr>close_fails := (\<lambda>t f. True)\<rparr>"
  have h1: "signal_at world_two = None"
    by (simp add: world_two_def)
  have h2: "\<forall>t path. \<not> open_fails ?E t path" and h3: "\<forall>t cmd. \<not> popen_fails ?E t cmd"
    by (simp_all add: env_exit_def env_ok_def)
  have v: "poll_at env_exit (tick world_two + 1) 1 = Some 1"
    "close_fails ?E (tick world_two + 3) 1"
    "map unit_handle (processes world_two) = [0, 1]"
    by (simp_all add: env_exit_def world_two_def)
  show ?thesis
    using monitor_survives_exits [OF h1 h2 h3, of cfg_two 100] h1 v by simp
qed

text \<open>
  The claim C8 as stated fails: when the sink cannot be reopened after the backoff,
  the OSError of \<open>open\<close> is caught neither in the loop nor in \<open>main\<close>. The run of
  \<open>main\<close> on two interfaces ends with the uncaught exception (exit status 1) in the
  first pass, and the second unit is never polled.
\<close>

theorem restart_open_failure_escapes:
  "map_option fst (main 1 env_crash cfg_two (initial_world None)) = Some (Raise OSError) \<and>
   map_option (exit_status \<circ> fst) (main 1 env_crash cfg_two (initial_world None)) = Some (Some 1) \<and>
   map_option (polled \<circ> trace \<circ> snd) (main 1 env_crash cfg_two (initial_world None)) = Some [0] \<and>
   map_option (processes \<circ> snd) (main 1 env_crash cfg_two (initial_world None))
     = Some [(''eth0'', 0, 0), (''eth1'', 1, 1)]"
  by code_simp
section \<open>Exit codes\<close>

lemma exit_1_unreadable_config:
  assumes "conf E = Unreadable" and "signal_at w = None"
  shows "program n E w = Some (SysExit 1, emit (EPrintErr MsgConfigError) w)"
  using assms by (simp add: program_def module_init_def intr_def due_def prim_defs comb_defs)

lemma exit_2_missing_binary:
  assumes "signal_at w = None"
    and "\<not> exists_at E (Suc (Suc (tick w))) (mk_path E (TCPDUMP_BIN C))"
  shows "map_option fst (main n E C w) = Some (SysExit 2) \<and>
         map_option (spawned \<circ> trace \<circ> snd) (main n E C w) = Some (spawned (trace w))"
  using assms
  by (simp add: main_def main_body_def main_prefix_def signal_signal_def check_binary_def
      intr_def due_def prim_defs comb_defs spawned_def)

lemma exit_2_mkdir_in_main:
  assumes "signal_at w = None"
    and "exists_at E (Suc (Suc (tick w))) (mk_path E (TCPDUMP_BIN C))"
    and "\<not> exists_at E (Suc (Suc (Suc (tick w)))) (OUTPUT_DIR C)"
    and "mkdir_fails E (Suc (Suc (Suc (Suc (tick w))))) (OUTPUT_DIR C)"
  shows "map_option fst (main n E C w) = Some (SysExit 2) \<and>
         map_option (spawned \<circ> trace \<circ> snd) (main n E C w) = Some (spawned (trace w))"
  using assms
  by (simp add: main_def main_body_def main_prefix_def signal_signal_def check_binary_def
      ensure_output_dir_def intr_def due_def prim_defs comb_defs spawned_def)

text \<open>
  Claim C6 (the code departs from it). The configuration is read, and the output
  directory cannot be created: \<open>OUTPUT_DIR.mkdir\<close> at module level (line 37) raises
  outside any \<open>try\<close>, the script ends with the uncaught exception, and the exit status
  is 1, not 2. No child was spawned. (The lemmas above give the cases in which the
  claim holds: status 1 for an unreadable configuration, status 2 for a missing
  binary, and status 2 from the guarded \<open>mkdir\<close> of \<open>main\<close>, which is reached only when
  the directory, created at line 37, is missing again at line 101.)
\<close>

theorem uncreatable_output_dir_exits_1:
  "map_option fst (program n env_nodir (initial_world None)) = Some (Raise OSError) \<and>
   map_option (exit_status \<circ> fst) (program n env_nodir (initial_world None)) = Some (Some 1) \<and>
   map_option (trace \<circ> snd) (program n env_nodir (initial_world None))
     = Some [EMkdir ''/var/log/tcpdump'' False]"
  by (simp add: program_def module_init_def env_nodir_def env_ok_def initial_world_def getint_def
      get_setting_def intr_def due_def prim_defs comb_defs)

lemma guarded_mkdir_exits_2:
  "map_option (exit_status \<circ> fst) (program 1 env_dir_vanishes (initial_world None)) = Some (Some 2)"
  by code_simp

end
